theory Spec2Isabelle
  imports Main
begin

section \<open>Strings\<close>

text \<open>
  Python \<open>str\<close> values are modelled as \<open>string\<close>, a list of 8-bit characters, read as
  ASCII text. \<open>upper\<close> and \<open>lower\<close> map the 26 ASCII letters and leave every other
  character alone; the special casings of Unicode lie outside this model.
\<close>

definition upper_char :: "char \<Rightarrow> char" where
  "upper_char c =
     (let n = (of_char c :: nat) in if 97 \<le> n \<and> n \<le> 122 then char_of (n - 32) else c)"

definition lower_char :: "char \<Rightarrow> char" where
  "lower_char c =
     (let n = (of_char c :: nat) in if 65 \<le> n \<and> n \<le> 90 then char_of (n + 32) else c)"

definition upper :: "string \<Rightarrow> string" where
  "upper s = map upper_char s"

definition lower :: "string \<Rightarrow> string" where
  "lower s = map lower_char s"

text \<open>\<open>str.startswith\<close> with a single prefix.\<close>

fun startswith :: "string \<Rightarrow> string \<Rightarrow> bool" where
  "startswith s [] = True"
| "startswith [] (p # ps) = False"
| "startswith (c # cs) (p # ps) = (c = p \<and> startswith cs ps)"

text \<open>The operator \<open>needle in hay\<close> on strings: a left-to-right search for an occurrence.\<close>

fun str_in :: "string \<Rightarrow> string \<Rightarrow> bool" where
  "str_in needle [] = (needle = [])"
| "str_in needle (c # cs) = (startswith (c # cs) needle \<or> str_in needle cs)"

text \<open>
  \<open>str.strip()\<close> removes the characters for which \<open>str.isspace\<close> holds from both ends;
  in ASCII these are tab, line feed, vertical tab, form feed, carriage return, the four
  separators \<open>0x1C\<close> to \<open>0x1F\<close>, and the space.
\<close>

definition isspace :: "char \<Rightarrow> bool" where
  "isspace c =
     (let n = (of_char c :: nat) in (9 \<le> n \<and> n \<le> 13) \<or> (28 \<le> n \<and> n \<le> 31) \<or> n = 32)"

definition strip :: "string \<Rightarrow> string" where
  "strip s = rev (dropWhile isspace (rev (dropWhile isspace s)))"

text \<open>\<open>str.startswith\<close> with a tuple of prefixes: some prefix of the tuple matches.\<close>

definition startswith_any :: "string \<Rightarrow> string list \<Rightarrow> bool" where
  "startswith_any s prefixes = list_ex (startswith s) prefixes"

text \<open>The slice \<open>xs[-n:]\<close>: the last \<open>n\<close> elements, or all of them when there are fewer.\<close>

definition slice_last :: "nat \<Rightarrow> 'a list \<Rightarrow> 'a list" where
  "slice_last n xs = drop (length xs - n) xs"

text \<open>The apostrophe that Python puts around a class name.\<close>

definition APOS :: string where
  "APOS = [CHR 0x27]"

section \<open>Exceptions\<close>

text \<open>An exception is a value carrying its message; \<open>str(e)\<close> reads the message.\<close>

datatype exn = TypeError string | JSONDecodeError string | Exception string

fun str :: "exn \<Rightarrow> string" where
  "str (TypeError m) = m"
| "str (JSONDecodeError m) = m"
| "str (Exception m) = m"

section \<open>db\_connector.py\<close>

definition FORBIDDEN_KEYWORDS :: "string list" where
  "FORBIDDEN_KEYWORDS =
     [''DELETE'', ''UPDATE'', ''ALTER'', ''DROP'', ''INSERT'', ''TRUNCATE'', ''CREATE'']"

definition is_query_safe :: "string \<Rightarrow> bool" where
  "is_query_safe query =
     (let upper_query = upper query
      in \<not> list_ex (\<lambda>keyword. str_in keyword upper_query) FORBIDDEN_KEYWORDS)"

text \<open>
  A value of a result row is one of the values \<open>json\<close> encodes by itself (\<open>None\<close>, a
  boolean, an integer, a string), a \<open>datetime\<close>, or any other object. A \<open>datetime\<close> is
  represented by the text its \<open>isoformat()\<close> returns, another object by the name of its
  class. Floating-point values are not modelled.
\<close>

datatype pyval =
    PNone | PBool bool | PInt int | PStr string
  | PDateTime string
  | POther string

type_synonym row = "(string \<times> pyval) list"

text \<open>
  \<open>DBConnector.execute_query\<close>. The database driver is a parameter: \<open>cursor_execute\<close> is
  what \<open>cursor.execute(query)\<close> does (it may raise), and the cursor it leaves has the rows
  \<open>fetchall()\<close> returns (or the exception it raises) and the column names of
  \<open>cursor.description\<close>. The result is paired with the statements sent to the cursor.
\<close>

record cursor =
  fetchall :: "exn + pyval list list"
  description :: "string list option"

datatype query_results = Tuples "pyval list list" | Dicts "row list"

fun dict_set :: "string \<Rightarrow> pyval \<Rightarrow> row \<Rightarrow> row" where
  "dict_set k v [] = [(k, v)]"
| "dict_set k v ((k', v') # d) = (if k = k' then (k', v) # d else (k', v') # dict_set k v d)"

definition dict_of :: "(string \<times> pyval) list \<Rightarrow> row" where
  "dict_of pairs = foldl (\<lambda>d (k, v). dict_set k v d) [] pairs"

definition execute_query ::
  "(string \<Rightarrow> exn + cursor) \<Rightarrow> string \<Rightarrow> (exn + query_results option) \<times> string list" where
  "execute_query cursor_execute query =
     (if \<not> is_query_safe query
      then (Inl (Exception ''Query rejected: Write operations are not allowed.''), [])
      else
        (case cursor_execute query of
           Inl e \<Rightarrow> (Inl e, [query])
         | Inr cur \<Rightarrow>
             (case fetchall cur of
                Inl e \<Rightarrow> (Inr None, [query])
              | Inr results \<Rightarrow>
                  (case description cur of
                     None \<Rightarrow> (Inr (Some (Tuples results)), [query])
                   | Some cols \<Rightarrow>
                       if cols = [] then (Inr (Some (Tuples results)), [query])
                       else (Inr (Some (Dicts (map (\<lambda>r. dict_of (zip cols r)) results))),
                             [query])))))"

section \<open>Messages and their persistence (app.py)\<close>

text \<open>
  \<open>serialize_datetime\<close>, the \<open>default\<close> of \<open>json.dump\<close>: the ISO text of a \<open>datetime\<close>, and
  \<open>TypeError\<close> with the type of the object for anything else.
\<close>

fun py_type :: "pyval \<Rightarrow> string" where
  "py_type PNone = ''NoneType''"
| "py_type (PBool b) = ''bool''"
| "py_type (PInt i) = ''int''"
| "py_type (PStr s) = ''str''"
| "py_type (PDateTime t) = ''datetime.datetime''"
| "py_type (POther cls) = cls"

fun serialize_datetime :: "pyval \<Rightarrow> exn + string" where
  "serialize_datetime (PDateTime t) = Inr t"
| "serialize_datetime obj =
     Inl (TypeError (''Type <class '' @ APOS @ py_type obj @ APOS @ ''> not serializable''))"

datatype role = User | Assistant

record turn =
  role :: role
  content :: string
  result :: "row list option"
  show_plot :: "bool option"

text \<open>
  What \<open>json.load\<close> reads back from what \<open>json.dump(..., default=serialize_datetime)\<close>
  wrote: a value \<open>json\<close> encodes by itself comes back as it was, any other value is
  replaced by the string \<open>serialize_datetime\<close> returns for it, and the first exception
  raised, in the order of the document, ends the dump.
\<close>

fun traverse :: "('a \<Rightarrow> exn + 'b) \<Rightarrow> 'a list \<Rightarrow> exn + 'b list" where
  "traverse f [] = Inr []"
| "traverse f (x # xs) =
     (case f x of
        Inl e \<Rightarrow> Inl e
      | Inr y \<Rightarrow> (case traverse f xs of Inl e \<Rightarrow> Inl e | Inr ys \<Rightarrow> Inr (y # ys)))"

fun json_value :: "pyval \<Rightarrow> exn + pyval" where
  "json_value PNone = Inr PNone"
| "json_value (PBool b) = Inr (PBool b)"
| "json_value (PInt i) = Inr (PInt i)"
| "json_value (PStr s) = Inr (PStr s)"
| "json_value obj = (case serialize_datetime obj of Inl e \<Rightarrow> Inl e | Inr t \<Rightarrow> Inr (PStr t))"

definition json_row :: "row \<Rightarrow> exn + row" where
  "json_row r =
     traverse (\<lambda>(k, v). case json_value v of Inl e \<Rightarrow> Inl e | Inr v' \<Rightarrow> Inr (k, v')) r"

definition json_turn :: "turn \<Rightarrow> exn + turn" where
  "json_turn m =
     (case result m of
        None \<Rightarrow> Inr m
      | Some rows \<Rightarrow>
          (case traverse json_row rows of
             Inl e \<Rightarrow> Inl e
           | Inr rows' \<Rightarrow> Inr (m\<lparr>result := Some rows'\<rparr>)))"

definition json_messages :: "turn list \<Rightarrow> exn + turn list" where
  "json_messages ms = traverse json_turn ms"

text \<open>
  A file of \<open>chat_histories\<close> holds the document \<open>{title, messages}\<close>, or is not a
  JSON document: \<open>open(filepath, "w")\<close> empties the file and \<open>json.dump\<close> writes it piece
  by piece, so a dump that an exception ends leaves an unfinished document behind.
\<close>

datatype chat_file = Corrupt | Chat string "turn list"

record feedback_entry =
  entry_id :: string
  entry_user_question :: string
  incorrect_sql :: string
  feedback :: string
  correct_sql :: string

datatype stage = AskQuestion | ShowQuery | AskFeedback | GetFeedback

text \<open>
  The state of the application: the keys of \<open>st.session_state\<close>, then the files. The
  stage tags \<open>"ask_question"\<close>, \<open>"show_query"\<close>, \<open>"ask_feedback"\<close> and \<open>"get_feedback"\<close>
  are the constructors of \<open>stage\<close>. \<open>chat_files\<close> maps a session id to the file
  \<open>chat_histories/<id>.json\<close>; \<open>feedback_file\<close> is \<open>feedback.json\<close>, \<open>None\<close> while it does
  not exist.
\<close>

record state =
  session_id :: string
  stage :: stage
  messages :: "turn list"
  user_question :: string
  sql :: string
  query_result :: "row list option"
  user_feedback :: string
  chat_files :: "string \<rightharpoonup> chat_file"
  feedback_file :: "feedback_entry list option"

definition append_feedback_to_json ::
  "string \<Rightarrow> string \<Rightarrow> string \<Rightarrow> string \<Rightarrow> string \<Rightarrow> state \<Rightarrow> state" where
  "append_feedback_to_json uuid question incorrect feedback_text correct s =
     (let feedback_entry = \<lparr>entry_id = uuid, entry_user_question = question,
                             incorrect_sql = incorrect, feedback = feedback_text,
                             correct_sql = correct\<rparr>;
          data = (case feedback_file s of None \<Rightarrow> [] | Some d \<Rightarrow> d)
      in s\<lparr>feedback_file := Some (data @ [feedback_entry])\<rparr>)"

text \<open>
  \<open>save_chat_to_file(messages, session_id)\<close>. \<open>uuid\<close> is what \<open>uuid4()\<close> would return.
  The result is the exception raised, if any, and the state left behind.
\<close>

definition first_user_content :: "turn list \<Rightarrow> string option" where
  "first_user_content ms = map_option content (find (\<lambda>m. role m = User) ms)"

definition save_chat_to_file :: "string \<Rightarrow> turn list \<Rightarrow> string \<Rightarrow> state \<Rightarrow> exn option \<times> state" where
  "save_chat_to_file uuid ms sid s =
     (let s1 = (if sid = [] then s\<lparr>session_id := uuid\<rparr> else s);
          sid1 = (if sid = [] then uuid else sid);
          title = (case first_user_content ms of None \<Rightarrow> ''Untitled Chat'' | Some c \<Rightarrow> c)
      in case json_messages ms of
           Inl e \<Rightarrow> (Some e, s1\<lparr>chat_files := (chat_files s1)(sid1 \<mapsto> Corrupt)\<rparr>)
         | Inr ms' \<Rightarrow> (None, s1\<lparr>chat_files := (chat_files s1)(sid1 \<mapsto> Chat title ms')\<rparr>))"

definition load_chat :: "string \<Rightarrow> state \<Rightarrow> exn + turn list" where
  "load_chat sid s =
     (case chat_files s sid of
        None \<Rightarrow> Inr []
      | Some Corrupt \<Rightarrow> Inl (JSONDecodeError ''Expecting value'')
      | Some (Chat title ms) \<Rightarrow> Inr ms)"

definition delete_chat :: "string \<Rightarrow> state \<Rightarrow> state" where
  "delete_chat sid s = s\<lparr>chat_files := (chat_files s)(sid := None)\<rparr>"

text \<open>
  \<open>list_chats\<close> offers the five most recently created files that can be read as JSON.
  Creation times are not modelled: \<open>listed\<close> holds of every file that can be read.
\<close>

definition listed :: "string \<Rightarrow> state \<Rightarrow> bool" where
  "listed sid s = (case chat_files s sid of Some (Chat title ms) \<Rightarrow> True | _ \<Rightarrow> False)"

section \<open>sql\_assistant.py\<close>

text \<open>
  The capabilities one run of the script consults: the generator \<open>vn.generate_sql\<close>, the
  executor \<open>vn.run_sql\<close>, both of which may raise, and \<open>uuid4\<close>, whose \<open>k\<close>-th result in
  the run is \<open>uuid4 env k\<close>. A call of the generator or of the executor is recorded with
  the text it was given.
\<close>

record env =
  vn_generate_sql :: "string \<Rightarrow> exn + string"
  vn_run_sql :: "string \<Rightarrow> exn + row list"
  uuid4 :: "nat \<Rightarrow> string"

datatype call = GenerateSql string | RunSql string

definition build_prompt :: "string \<Rightarrow> string option \<Rightarrow> turn list option \<Rightarrow> string" where
  "build_prompt question feedback_opt previous_messages =
     (let prompt0 =
            (case previous_messages of
               None \<Rightarrow> []
             | Some ms \<Rightarrow>
                 if ms = [] then []
                 else foldl (\<lambda>prompt msg.
                        case role msg of
                          User \<Rightarrow> prompt @ ''User: '' @ content msg @ ''\<newline>''
                        | Assistant \<Rightarrow> prompt @ ''Assistant SQL: '' @ content msg @ ''\<newline>'')
                      [] (slice_last 5 ms));
          prompt1 = prompt0 @ ''\<newline>User: '' @ question @ ''\<newline>'';
          prompt2 =
            (case feedback_opt of
               None \<Rightarrow> prompt1
             | Some f \<Rightarrow> if f = [] then prompt1 else prompt1 @ ''Feedback: '' @ f @ ''\<newline>'')
      in prompt2 @ ''Generate an appropriate SQL query to answer the user.'')"

definition generate_sql_with_feedback ::
  "env \<Rightarrow> string \<Rightarrow> string option \<Rightarrow> turn list option \<Rightarrow> (exn + string) \<times> call list" where
  "generate_sql_with_feedback vn question feedback_opt previous_messages =
     (let prompt = build_prompt question feedback_opt previous_messages
      in (vn_generate_sql vn prompt, [GenerateSql prompt]))"

section \<open>The controller (app.py)\<close>

text \<open>
  \<open>user_wants_plot\<close> searches the lowered question for one of six words between word
  boundaries. Each word starts and ends with a word character, so the boundary before it
  is the start of the text or a character that is not a word character, and likewise
  after it.
\<close>

definition is_word_char :: "char \<Rightarrow> bool" where
  "is_word_char c =
     (let n = (of_char c :: nat)
      in (48 \<le> n \<and> n \<le> 57) \<or> (65 \<le> n \<and> n \<le> 90) \<or> n = 95 \<or> (97 \<le> n \<and> n \<le> 122))"

definition PLOT_WORDS :: "string list" where
  "PLOT_WORDS = [''plot'', ''chart'', ''graph'', ''visualize'', ''draw'', ''visualisation'']"

definition boundary_after :: "string \<Rightarrow> bool" where
  "boundary_after rest = (case rest of [] \<Rightarrow> True | c # cs \<Rightarrow> \<not> is_word_char c)"

fun search_plot_word :: "bool \<Rightarrow> string \<Rightarrow> bool" where
  "search_plot_word after_word [] = False"
| "search_plot_word after_word (c # cs) =
     ((\<not> after_word \<and>
       list_ex (\<lambda>w. startswith (c # cs) w \<and> boundary_after (drop (length w) (c # cs))) PLOT_WORDS)
      \<or> search_plot_word (is_word_char c) cs)"

definition user_wants_plot :: "string \<Rightarrow> bool" where
  "user_wants_plot question = search_plot_word False (lower question)"

definition reset_to_ask_question :: "state \<Rightarrow> state" where
  "reset_to_ask_question s =
     s\<lparr>stage := AskQuestion, user_question := [], sql := [], query_result := None,
       user_feedback := []\<rparr>"

text \<open>
  The test the controller applies to generated text:
  \<open>sql.strip().lower().startswith(("select", "with", "show", "describe"))\<close>.
\<close>

definition has_sql_shape :: "string \<Rightarrow> bool" where
  "has_sql_shape text = startswith_any (lower (strip text)) [''select'', ''with'', ''show'', ''describe'']"

text \<open>
  What one run of the script shows (\<open>st.error\<close>, \<open>st.sidebar.error\<close>, \<open>st.warning\<close>,
  \<open>st.success\<close>, \<open>st.toast\<close>), and how it ends: at the end of the script, at \<open>st.rerun()\<close>,
  or at an exception nothing catches.
\<close>

datatype notice =
  StError string | StSidebarError string | StWarning string | StSuccess string | StToast string

datatype ending = Finished | Rerun | Crashed exn

record outcome =
  st :: state
  notices :: "notice list"
  calls :: "call list"
  ending :: ending

text \<open>
  What the user did to start the run: nothing (the run follows \<open>st.rerun()\<close>), one of the
  buttons, or a submitted text. \<open>SubmitFeedback t\<close> is the button of the feedback form,
  pressed with \<open>t\<close> in its text area.
\<close>

datatype event =
    NoEvent
  | NewChat
  | RunManualSQL string
  | LoadChat string
  | DeleteChat string
  | ChatInput string
  | ButtonYes
  | ButtonNo
  | SubmitFeedback string

definition init_state :: "string \<Rightarrow> state" where
  "init_state sid =
     \<lparr>session_id = sid, stage = AskQuestion, messages = [], user_question = [], sql = [],
      query_result = None, user_feedback = [], chat_files = Map.empty, feedback_file = None\<rparr>"

text \<open>The "Run Manual SQL" button of the sidebar, with \<open>manual_sql\<close> in its text area.\<close>

definition run_manual_sql :: "env \<Rightarrow> string \<Rightarrow> state \<Rightarrow> outcome" where
  "run_manual_sql vn manual_sql s =
     (if is_query_safe manual_sql then
        (case vn_run_sql vn manual_sql of
           Inl e \<Rightarrow>
             \<lparr>st = s, notices = [StSidebarError (''Error: '' @ str e)],
              calls = [RunSql manual_sql], ending = Finished\<rparr>
         | Inr manual_result \<Rightarrow>
             (let s1 = s\<lparr>messages := messages s @
                          [\<lparr>role = User, content = manual_sql, result = None, show_plot = None\<rparr>,
                           \<lparr>role = Assistant, content = ''Manual SQL Execution'',
                            result = Some manual_result,
                            show_plot = Some (user_wants_plot manual_sql)\<rparr>]\<rparr>
              in case save_chat_to_file (uuid4 vn 0) (messages s1) (session_id s1) s1 of
                   (Some e, s2) \<Rightarrow>
                     \<lparr>st = s2,
                      notices = [StSuccess ''Manual query executed successfully!'',
                                 StSidebarError (''Error: '' @ str e)],
                      calls = [RunSql manual_sql], ending = Finished\<rparr>
                 | (None, s2) \<Rightarrow>
                     \<lparr>st = s2, notices = [StSuccess ''Manual query executed successfully!''],
                      calls = [RunSql manual_sql], ending = Rerun\<rparr>))
      else
        \<lparr>st = s,
         notices = [StSidebarError ''Unsafe SQL detected. Only SELECT-like statements allowed.''],
         calls = [], ending = Finished\<rparr>)"

text \<open>
  The sidebar. "New Chat" clears \<open>st.session_state\<close> and sets \<open>session_id\<close> and
  \<open>messages\<close>; the run that follows finds the other keys missing and gives them their
  initial values, which the state here already has. The files stay. The buttons "Load"
  and delete exist for the listed chats only.
\<close>

definition sidebar :: "env \<Rightarrow> event \<Rightarrow> state \<Rightarrow> outcome" where
  "sidebar vn ev s =
     (case ev of
        NewChat \<Rightarrow>
          \<lparr>st = (init_state (uuid4 vn 0))\<lparr>chat_files := chat_files s,
                                           feedback_file := feedback_file s\<rparr>,
           notices = [], calls = [], ending = Rerun\<rparr>
      | RunManualSQL manual_sql \<Rightarrow> run_manual_sql vn manual_sql s
      | LoadChat sid \<Rightarrow>
          if listed sid s then
            (case load_chat sid (s\<lparr>session_id := sid\<rparr>) of
               Inl e \<Rightarrow>
                 \<lparr>st = s\<lparr>session_id := sid\<rparr>, notices = [], calls = [], ending = Crashed e\<rparr>
             | Inr ms \<Rightarrow>
                 \<lparr>st = s\<lparr>session_id := sid, messages := ms\<rparr>, notices = [], calls = [],
                  ending = Rerun\<rparr>)
          else \<lparr>st = s, notices = [], calls = [], ending = Finished\<rparr>
      | DeleteChat sid \<Rightarrow>
          if listed sid s
          then \<lparr>st = delete_chat sid s, notices = [], calls = [], ending = Rerun\<rparr>
          else \<lparr>st = s, notices = [], calls = [], ending = Finished\<rparr>
      | _ \<Rightarrow> \<lparr>st = s, notices = [], calls = [], ending = Finished\<rparr>)"

text \<open>Stage \<open>ask_question\<close>, with the text \<open>user_input\<close> submitted to the chat input.\<close>

definition ask_question :: "env \<Rightarrow> string \<Rightarrow> state \<Rightarrow> outcome" where
  "ask_question vn user_input s =
     (if \<not> is_query_safe user_input then
        \<lparr>st = s,
         notices = [StError ''Error: Queries with DELETE, UPDATE, DROP, INSERT, or other unsafe operations are not allowed.''],
         calls = [], ending = Finished\<rparr>
      else
        (let s1 = s\<lparr>user_question := user_input,
                    messages := messages s @
                      [\<lparr>role = User, content = user_input, result = None, show_plot = None\<rparr>]\<rparr>
         in case save_chat_to_file (uuid4 vn 0) (messages s1) (session_id s1) s1 of
              (Some e, s2) \<Rightarrow> \<lparr>st = s2, notices = [], calls = [], ending = Crashed e\<rparr>
            | (None, s2) \<Rightarrow>
                (case generate_sql_with_feedback vn user_input None (Some (messages s2)) of
                   (Inl e, cs) \<Rightarrow>
                     \<lparr>st = s2, notices = [StError (''Error: '' @ str e)], calls = cs,
                      ending = Finished\<rparr>
                 | (Inr generated, cs) \<Rightarrow>
                     if \<not> has_sql_shape generated then
                       \<lparr>st = s2,
                        notices = [StError (''Generated text is not valid SQL:\<newline>\<newline>'' @ generated)],
                        calls = cs, ending = Finished\<rparr>
                     else
                       \<lparr>st = s2\<lparr>sql := generated, stage := ShowQuery\<rparr>, notices = [],
                        calls = cs, ending = Rerun\<rparr>)))"

text \<open>Stage \<open>show_query\<close>.\<close>

definition show_query :: "env \<Rightarrow> state \<Rightarrow> outcome" where
  "show_query vn s =
     (case vn_run_sql vn (sql s) of
        Inl e \<Rightarrow>
          \<lparr>st = reset_to_ask_question s,
           notices = [StError (''Error executing query: '' @ str e)],
           calls = [RunSql (sql s)], ending = Finished\<rparr>
      | Inr result_df \<Rightarrow>
          (let s1 = s\<lparr>query_result := Some result_df\<rparr>;
               wants_plot = user_wants_plot (user_question s1);
               s2 = (if messages s1 \<noteq> [] \<and> role (last (messages s1)) = Assistant
                     then (if content (last (messages s1)) = sql s1
                           then s1\<lparr>messages := butlast (messages s1)\<rparr> else s1)
                     else s1);
               s3 = s2\<lparr>messages := messages s2 @
                          [\<lparr>role = Assistant, content = sql s2, result = Some result_df,
                            show_plot = Some wants_plot\<rparr>]\<rparr>
           in case save_chat_to_file (uuid4 vn 0) (messages s3) (session_id s3) s3 of
                (Some e, s4) \<Rightarrow>
                  \<lparr>st = reset_to_ask_question s4,
                   notices = [StError (''Error executing query: '' @ str e)],
                   calls = [RunSql (sql s)], ending = Finished\<rparr>
              | (None, s4) \<Rightarrow>
                  \<lparr>st = s4\<lparr>stage := AskFeedback\<rparr>, notices = [], calls = [RunSql (sql s)],
                   ending = Rerun\<rparr>))"

text \<open>Stage \<open>ask_feedback\<close>: the two buttons, and a new question in the chat input.\<close>

definition ask_feedback :: "env \<Rightarrow> event \<Rightarrow> state \<Rightarrow> outcome" where
  "ask_feedback vn ev s =
     (case ev of
        ButtonYes \<Rightarrow>
          \<lparr>st = reset_to_ask_question s, notices = [StToast ''Thanks for the feedback!''],
           calls = [], ending = Rerun\<rparr>
      | ButtonNo \<Rightarrow> \<lparr>st = s\<lparr>stage := GetFeedback\<rparr>, notices = [], calls = [], ending = Rerun\<rparr>
      | ChatInput next_question \<Rightarrow>
          if next_question = [] then \<lparr>st = s, notices = [], calls = [], ending = Finished\<rparr>
          else
            (let s0 = reset_to_ask_question s;
                 s1 = s0\<lparr>user_question := next_question,
                         messages := messages s0 @
                           [\<lparr>role = User, content = next_question, result = None,
                             show_plot = None\<rparr>]\<rparr>
             in case save_chat_to_file (uuid4 vn 0) (messages s1) (session_id s1) s1 of
                  (Some e, s2) \<Rightarrow> \<lparr>st = s2, notices = [], calls = [], ending = Crashed e\<rparr>
                | (None, s2) \<Rightarrow>
                    (case generate_sql_with_feedback vn next_question None (Some (messages s2)) of
                       (Inl e, cs) \<Rightarrow>
                         \<lparr>st = s2, notices = [StError (''Error: '' @ str e)], calls = cs,
                          ending = Finished\<rparr>
                     | (Inr generated, cs) \<Rightarrow>
                         if \<not> has_sql_shape generated then
                           \<lparr>st = s2,
                            notices = [StError (''Generated text is not valid SQL:\<newline>\<newline>'' @ generated)],
                            calls = cs, ending = Finished\<rparr>
                         else
                           \<lparr>st = s2\<lparr>sql := generated, stage := ShowQuery\<rparr>, notices = [],
                            calls = cs, ending = Rerun\<rparr>))
      | _ \<Rightarrow> \<lparr>st = s, notices = [], calls = [], ending = Finished\<rparr>)"

text \<open>
  Stage \<open>get_feedback\<close>, the button "Submit Feedback". The text area is the widget of the
  key \<open>user_feedback\<close>, so the state holds its text when the button is handled.
\<close>

definition get_feedback :: "env \<Rightarrow> string \<Rightarrow> state \<Rightarrow> outcome" where
  "get_feedback vn typed s =
     (let s1 = s\<lparr>user_feedback := typed\<rparr>;
          feedback_text = strip (user_feedback s1)
      in if feedback_text \<noteq> [] then
           (case generate_sql_with_feedback vn (user_question s1) (Some feedback_text) None of
              (Inl e, cs) \<Rightarrow>
                \<lparr>st = s1, notices = [StError (''Error regenerating SQL: '' @ str e)], calls = cs,
                 ending = Finished\<rparr>
            | (Inr new_sql, cs) \<Rightarrow>
                if \<not> has_sql_shape new_sql then
                  \<lparr>st = s1,
                   notices = [StError (''Invalid regenerated SQL:\<newline>\<newline>'' @ new_sql)],
                   calls = cs, ending = Finished\<rparr>
                else
                  (let s2 = append_feedback_to_json (uuid4 vn 0) (user_question s1) (sql s1)
                              feedback_text new_sql s1;
                       s3 = s2\<lparr>sql := new_sql,
                               messages := messages s2 @
                                 [\<lparr>role = User, content = ''Feedback: '' @ feedback_text,
                                   result = None, show_plot = None\<rparr>,
                                  \<lparr>role = Assistant, content = new_sql, result = None,
                                   show_plot = None\<rparr>]\<rparr>
                   in case save_chat_to_file (uuid4 vn 1) (messages s3) (session_id s3) s3 of
                        (Some e, s4) \<Rightarrow>
                          \<lparr>st = s4,
                           notices = [StError (''Error regenerating SQL: '' @ str e)],
                           calls = cs, ending = Finished\<rparr>
                      | (None, s4) \<Rightarrow>
                          \<lparr>st = s4\<lparr>stage := ShowQuery\<rparr>, notices = [], calls = cs,
                           ending = Rerun\<rparr>))
         else
           \<lparr>st = s1, notices = [StWarning ''Please provide feedback''], calls = [],
            ending = Finished\<rparr>)"

text \<open>The chain \<open>if stage == ... elif ...\<close> at the end of the script.\<close>

definition flow :: "env \<Rightarrow> event \<Rightarrow> state \<Rightarrow> outcome" where
  "flow vn ev s =
     (case stage s of
        AskQuestion \<Rightarrow>
          (case ev of
             ChatInput user_input \<Rightarrow>
               if user_input = [] then \<lparr>st = s, notices = [], calls = [], ending = Finished\<rparr>
               else ask_question vn user_input s
           | _ \<Rightarrow> \<lparr>st = s, notices = [], calls = [], ending = Finished\<rparr>)
      | ShowQuery \<Rightarrow> show_query vn s
      | AskFeedback \<Rightarrow> ask_feedback vn ev s
      | GetFeedback \<Rightarrow>
          (case ev of
             SubmitFeedback typed \<Rightarrow> get_feedback vn typed s
           | _ \<Rightarrow> \<lparr>st = s, notices = [], calls = [], ending = Finished\<rparr>))"

text \<open>
  One run of the script: the sidebar, then, unless the sidebar ended the run, the stage.
\<close>

definition run_script :: "env \<Rightarrow> event \<Rightarrow> state \<Rightarrow> outcome" where
  "run_script vn ev s =
     (let o1 = sidebar vn ev s
      in if ending o1 = Finished then
           (let o2 = flow vn ev (st o1)
            in \<lparr>st = st o2, notices = notices o1 @ notices o2, calls = calls o1 @ calls o2,
                ending = ending o2\<rparr>)
         else o1)"

text \<open>
  The states the application reaches, each with the flag that the last run ended at
  \<open>st.rerun()\<close>. It starts with a fresh session and no files. After \<open>st.rerun()\<close> the
  script runs again with no event; otherwise the next run is started by any event.
\<close>

inductive reachable :: "state \<Rightarrow> bool \<Rightarrow> bool" where
  start: "reachable (init_state sid) False"
| user_run: "reachable s False \<Longrightarrow>
     reachable (st (run_script vn ev s)) (ending (run_script vn ev s) = Rerun)"
| rerun: "reachable s True \<Longrightarrow>
     reachable (st (run_script vn NoEvent s)) (ending (run_script vn NoEvent s) = Rerun)"

section \<open>Notions of the specification\<close>

subsection \<open>Texts compared without regard to case\<close>

text \<open>
  A keyword occurs in a text in some combination of cases: a stretch of the text equals
  the keyword once the case of its letters is ignored. A text starts with a keyword in
  the same sense. Generated text has the shape of a query when, once trimmed, it starts
  with one of \<open>select\<close>, \<open>with\<close>, \<open>show\<close>, \<open>describe\<close> in some combination of cases.
\<close>

definition same_ignoring_case :: "string \<Rightarrow> string \<Rightarrow> bool" where
  "same_ignoring_case u v = list_all2 (\<lambda>a b. lower_char a = lower_char b) u v"

definition ci_occurs :: "string \<Rightarrow> string \<Rightarrow> bool" where
  "ci_occurs kw s = (\<exists>pre w post. s = pre @ w @ post \<and> same_ignoring_case w kw)"

definition is_upper_letter :: "char \<Rightarrow> bool" where
  "is_upper_letter c = (65 \<le> (of_char c :: nat) \<and> (of_char c :: nat) \<le> 90)"

definition starts_ignoring_case :: "string \<Rightarrow> string \<Rightarrow> bool" where
  "starts_ignoring_case s kw = (\<exists>p rest. s = p @ rest \<and> same_ignoring_case p kw)"

definition query_shaped :: "string \<Rightarrow> bool" where
  "query_shaped text =
     (\<exists>kw \<in> {''select'', ''with'', ''show'', ''describe''}. starts_ignoring_case (strip text) kw)"

subsection \<open>The prompt\<close>

text \<open>
  The line of the prompt for one message of the history, the history a call passes
  (none for \<open>None\<close>), and feedback that counts as provided: a string that is not empty.
\<close>

definition render_turn :: "turn \<Rightarrow> string" where
  "render_turn m =
     (case role m of User \<Rightarrow> ''User: '' | Assistant \<Rightarrow> ''Assistant SQL: '') @ content m @ ''\<newline>''"

definition provided :: "string option \<Rightarrow> bool" where
  "provided fb = (fb \<noteq> None \<and> fb \<noteq> Some [])"

definition history_of :: "turn list option \<Rightarrow> turn list" where
  "history_of previous_messages = (case previous_messages of None \<Rightarrow> [] | Some h \<Rightarrow> h)"

definition user_turn :: "string \<Rightarrow> turn" where
  "user_turn c = \<lparr>role = User, content = c, result = None, show_plot = None\<rparr>"

subsection \<open>Messages that can be stored\<close>

text \<open>
  A message list can be stored when no value of its results is an object other than a
  \<open>datetime\<close> that \<open>json\<close> cannot encode. What is read back has each \<open>datetime\<close> replaced
  by its ISO text; a list whose values \<open>json\<close> encodes by itself is read back unchanged.
\<close>

fun is_other :: "pyval \<Rightarrow> bool" where
  "is_other (POther cls) = True"
| "is_other v = False"


definition rows_of :: "turn \<Rightarrow> row list" where
  "rows_of m = (case result m of None \<Rightarrow> [] | Some rows \<Rightarrow> rows)"

definition storable :: "turn list \<Rightarrow> bool" where
  "storable ms = list_all (\<lambda>m. list_all (list_all (\<lambda>kv. \<not> is_other (snd kv))) (rows_of m)) ms"


fun iso_value :: "pyval \<Rightarrow> pyval" where
  "iso_value (PDateTime t) = PStr t"
| "iso_value v = v"

definition iso_turn :: "turn \<Rightarrow> turn" where
  "iso_turn m = m\<lparr>result := map_option (map (map (\<lambda>kv. (fst kv, iso_value (snd kv))))) (result m)\<rparr>"

subsection \<open>Outcomes of a run\<close>




subsection \<open>Invariants\<close>

text \<open>
  The gate that stored SQL has passed. An assistant message holds the label of a manual
  run or text of the shape of a query; so do the messages of every readable file; both SQL
  texts of every feedback entry have that shape; and beyond the first stage the current
  SQL has it.
\<close>

definition shaped_turns :: "turn list \<Rightarrow> bool" where
  "shaped_turns ms =
     list_all (\<lambda>m. role m = Assistant \<longrightarrow>
                      content m = ''Manual SQL Execution'' \<or> has_sql_shape (content m)) ms"

definition shaped_files :: "state \<Rightarrow> bool" where
  "shaped_files s = (\<forall>sid title ms. chat_files s sid = Some (Chat title ms) \<longrightarrow> shaped_turns ms)"

definition shaped_feedback :: "state \<Rightarrow> bool" where
  "shaped_feedback s =
     (case feedback_file s of
        None \<Rightarrow> True
      | Some d \<Rightarrow> list_all (\<lambda>e. has_sql_shape (incorrect_sql e) \<and> has_sql_shape (correct_sql e)) d)"

definition shape_inv :: "state \<Rightarrow> bool" where
  "shape_inv s =
     (shaped_turns (messages s) \<and> shaped_files s \<and> shaped_feedback s
      \<and> (stage s \<noteq> AskQuestion \<longrightarrow> has_sql_shape (sql s)))"

text \<open>
  Two adjacent assistant messages with the same content; a state has none, in the session
  and in every readable file.
\<close>

fun adjacent_duplicate :: "turn list \<Rightarrow> bool" where
  "adjacent_duplicate (a # b # ms) =
     ((role a = Assistant \<and> role b = Assistant \<and> content a = content b)
      \<or> adjacent_duplicate (b # ms))"
| "adjacent_duplicate ms = False"

definition duplicate_free :: "state \<Rightarrow> bool" where
  "duplicate_free s =
     (\<not> adjacent_duplicate (messages s)
      \<and> (\<forall>sid title ms. chat_files s sid = Some (Chat title ms) \<longrightarrow> \<not> adjacent_duplicate ms))"

section \<open>Concrete runs\<close>

text \<open>
  Three environments. In each the executor returns one row. The generator of the first
  answers every prompt with a plain query, that of the second with a query followed by a
  \<open>DROP\<close> statement, that of the third with prose.
\<close>

definition plain_env :: env where
  "plain_env =
     \<lparr>vn_generate_sql = (\<lambda>prompt. Inr ''select * from orders''),
      vn_run_sql = (\<lambda>text. Inr [[(''n'', PInt 1)]]),
      uuid4 = (\<lambda>k. ''uuid-2'')\<rparr>"

definition rogue_env :: env where
  "rogue_env =
     \<lparr>vn_generate_sql = (\<lambda>prompt. Inr ''SELECT 1; DROP TABLE orders''),
      vn_run_sql = (\<lambda>text. Inr [[(''n'', PInt 1)]]),
      uuid4 = (\<lambda>k. ''uuid-2'')\<rparr>"


text \<open>
  The states of a session with an environment: a first question asked, answered,
  declined by the user, and answered again after corrective feedback.
\<close>

definition asked :: "env \<Rightarrow> state" where
  "asked vn = st (run_script vn (ChatInput ''list the orders'') (init_state ''uuid-1''))"

definition answered :: "env \<Rightarrow> state" where
  "answered vn = st (run_script vn NoEvent (asked vn))"

definition declined :: "env \<Rightarrow> state" where
  "declined vn = st (run_script vn ButtonNo (answered vn))"

definition regenerated :: "env \<Rightarrow> state" where
  "regenerated vn = st (run_script vn (SubmitFeedback ''wrong column'') (declined vn))"


definition seven_turns :: "turn list" where
  "seven_turns =
     [\<lparr>role = User, content = ''q1'', result = None, show_plot = None\<rparr>,
      \<lparr>role = Assistant, content = ''select 1'', result = Some [[(''n'', PInt 1)]],
       show_plot = Some False\<rparr>,
      \<lparr>role = User, content = ''q2'', result = None, show_plot = None\<rparr>,
      \<lparr>role = Assistant, content = ''select 2'', result = Some [], show_plot = Some False\<rparr>,
      \<lparr>role = User, content = ''Feedback: wrong column'', result = None, show_plot = None\<rparr>,
      \<lparr>role = Assistant, content = ''select 3'', result = Some [], show_plot = Some False\<rparr>,
      \<lparr>role = User, content = ''q3'', result = None, show_plot = None\<rparr>]"



definition one_row_cursor :: "string \<Rightarrow> exn + cursor" where
  "one_row_cursor query = Inr \<lparr>fetchall = Inr [[PInt 1]], description = Some [''n'']\<rparr>"

section \<open>Properties of the safety gate\<close>

lemma of_char_upper_char:
  "(of_char (upper_char c) :: nat) =
     (if 97 \<le> (of_char c :: nat) \<and> (of_char c :: nat) \<le> 122 then of_char c - 32 else of_char c)"
  by (auto simp: upper_char_def Let_def)

lemma of_char_lower_char:
  "(of_char (lower_char c) :: nat) =
     (if 65 \<le> (of_char c :: nat) \<and> (of_char c :: nat) \<le> 90 then of_char c + 32 else of_char c)"
  by (simp add: lower_char_def Let_def)

lemma upper_char_eq_iff:
  assumes "is_upper_letter b"
  shows "(upper_char a = b) = (lower_char a = lower_char b)"
proof -
  have "(upper_char a = b) = ((of_char (upper_char a) :: nat) = of_char b)"
    by simp
  also have "\<dots> = ((of_char (lower_char a) :: nat) = of_char (lower_char b))"
    using assms unfolding of_char_upper_char of_char_lower_char is_upper_letter_def
    by auto
  also have "\<dots> = (lower_char a = lower_char b)"
    by simp
  finally show ?thesis .
qed

lemma upper_eq_iff:
  "list_all is_upper_letter kw \<Longrightarrow> (upper w = kw) = same_ignoring_case w kw"
proof (induction kw arbitrary: w)
  case Nil
  then show ?case by (simp add: upper_def same_ignoring_case_def)
next
  case (Cons b kw)
  then show ?case
    by (cases w) (auto simp: upper_def same_ignoring_case_def upper_char_eq_iff)
qed

lemma startswith_iff: "startswith s p = (\<exists>rest. s = p @ rest)"
  by (induction s p rule: startswith.induct) auto

lemma str_in_iff: "str_in needle hay = (\<exists>pre post. hay = pre @ needle @ post)"
proof (induction hay)
  case Nil
  then show ?case by auto
next
  case (Cons c cs)
  show ?case
  proof
    assume "str_in needle (c # cs)"
    then consider "startswith (c # cs) needle" | "str_in needle cs" by auto
    then show "\<exists>pre post. c # cs = pre @ needle @ post"
    proof cases
      case 1
      then obtain rest where "c # cs = needle @ rest" by (auto simp: startswith_iff)
      then have "c # cs = [] @ needle @ rest" by simp
      then show ?thesis by blast
    next
      case 2
      then obtain pre post where "cs = pre @ needle @ post" using Cons.IH by auto
      then have "c # cs = (c # pre) @ needle @ post" by simp
      then show ?thesis by blast
    qed
  next
    assume "\<exists>pre post. c # cs = pre @ needle @ post"
    then obtain pre post where eq: "c # cs = pre @ needle @ post" by auto
    show "str_in needle (c # cs)"
    proof (cases pre)
      case Nil
      with eq have "startswith (c # cs) needle" by (auto simp: startswith_iff)
      then show ?thesis by simp
    next
      case (Cons p pre')
      with eq have "cs = pre' @ needle @ post" by simp
      then have "str_in needle cs" using Cons.IH by blast
      then show ?thesis by simp
    qed
  qed
qed

lemma str_in_upper_iff:
  assumes "list_all is_upper_letter kw"
  shows "str_in kw (upper s) = ci_occurs kw s"
proof -
  have "str_in kw (upper s) = (\<exists>pre post. upper s = pre @ kw @ post)"
    by (rule str_in_iff)
  also have "\<dots> = (\<exists>pre w post. s = pre @ w @ post \<and> upper w = kw)"
  proof
    assume "\<exists>pre post. upper s = pre @ kw @ post"
    then obtain pre post where "map upper_char s = pre @ kw @ post" by (auto simp: upper_def)
    then have "\<exists>us vs. s = us @ vs \<and> pre = map upper_char us \<and> kw @ post = map upper_char vs"
      by (simp only: map_eq_append_conv)
    then obtain a r where 1: "s = a @ r" "kw @ post = map upper_char r"
      by blast
    from 1(2) have "\<exists>us vs. r = us @ vs \<and> kw = map upper_char us \<and> post = map upper_char vs"
      by (simp only: append_eq_map_conv)
    then obtain b c where 2: "r = b @ c" "kw = map upper_char b"
      by blast
    from 1 2 have "s = a @ b @ c" "map upper_char b = kw" by simp_all
    then show "\<exists>pre w post. s = pre @ w @ post \<and> upper w = kw"
      unfolding upper_def by blast
  next
    assume "\<exists>pre w post. s = pre @ w @ post \<and> upper w = kw"
    then obtain pre w post where "s = pre @ w @ post" "upper w = kw" by auto
    then have "upper s = upper pre @ kw @ upper post" by (auto simp: upper_def)
    then show "\<exists>pre post. upper s = pre @ kw @ post" by blast
  qed
  also have "\<dots> = ci_occurs kw s"
    unfolding ci_occurs_def using upper_eq_iff [OF assms] by simp
  finally show ?thesis .
qed

lemma FORBIDDEN_KEYWORDS_upper: "list_all (list_all is_upper_letter) FORBIDDEN_KEYWORDS"
  by code_simp

lemma is_query_safe_iff:
  "is_query_safe s = (\<not> (\<exists>kw \<in> set FORBIDDEN_KEYWORDS. ci_occurs kw s))"
proof -
  have "\<And>kw. kw \<in> set FORBIDDEN_KEYWORDS \<Longrightarrow> str_in kw (upper s) = ci_occurs kw s"
    using FORBIDDEN_KEYWORDS_upper str_in_upper_iff by (auto simp: list_all_iff)
  then show ?thesis
    by (auto simp: is_query_safe_def Let_def list_ex_iff)
qed

text \<open>
  C3. \<open>is_query_safe\<close> returns false on every text in which one of the keywords DELETE,
  UPDATE, ALTER, DROP, INSERT, TRUNCATE, CREATE occurs in some combination of cases, and
  true on every text in which none does. \<open>update_count\<close> and \<open>DROP TABLE x\<close> are unsafe,
  \<open>select * from orders\<close> is safe.
\<close>

theorem is_query_safe_denylist:
  "(is_query_safe s \<longleftrightarrow> \<not> (\<exists>kw \<in> set FORBIDDEN_KEYWORDS. ci_occurs kw s))
   \<and> set FORBIDDEN_KEYWORDS =
       {''DELETE'', ''UPDATE'', ''ALTER'', ''DROP'', ''INSERT'', ''TRUNCATE'', ''CREATE''}
   \<and> \<not> is_query_safe ''update_count''
   \<and> is_query_safe ''select * from orders''
   \<and> \<not> is_query_safe ''DROP TABLE x''"
proof -
  have 1: "set FORBIDDEN_KEYWORDS =
       {''DELETE'', ''UPDATE'', ''ALTER'', ''DROP'', ''INSERT'', ''TRUNCATE'', ''CREATE''}"
    by (simp add: FORBIDDEN_KEYWORDS_def)
  have 2: "\<not> is_query_safe ''update_count''" by code_simp
  have 3: "is_query_safe ''select * from orders''" by code_simp
  have 4: "\<not> is_query_safe ''DROP TABLE x''" by code_simp
  from is_query_safe_iff 1 2 3 4 show ?thesis by blast
qed

theorem is_query_safe_denylist_witness:
  "is_query_safe ''select * from orders''
   \<and> \<not> (\<exists>kw \<in> set FORBIDDEN_KEYWORDS. ci_occurs kw ''select * from orders'')"
  using is_query_safe_denylist [of "''select * from orders''"] by blast

section \<open>Properties of the prompt\<close>

lemma foldl_append_concat:
  "foldl (\<lambda>acc x. acc @ g x) a xs = a @ concat (map g xs)"
  by (induction xs arbitrary: a) auto

lemma prompt_loop:
  "foldl (\<lambda>prompt msg.
            case role msg of
              User \<Rightarrow> prompt @ ''User: '' @ content msg @ ''\<newline>''
            | Assistant \<Rightarrow> prompt @ ''Assistant SQL: '' @ content msg @ ''\<newline>'') [] xs
   = concat (map render_turn xs)"
proof -
  have "(\<lambda>prompt msg.
            case role msg of
              User \<Rightarrow> prompt @ ''User: '' @ content msg @ ''\<newline>''
            | Assistant \<Rightarrow> prompt @ ''Assistant SQL: '' @ content msg @ ''\<newline>'')
        = (\<lambda>prompt msg. prompt @ render_turn msg)"
    by (intro ext) (simp add: render_turn_def split: role.splits)
  then show ?thesis by (simp add: foldl_append_concat)
qed

lemma build_prompt_eq:
  "build_prompt q fb pm =
     concat (map render_turn (slice_last 5 (history_of pm)))
     @ ''\<newline>User: '' @ q @ ''\<newline>''
     @ (if provided fb then ''Feedback: '' @ the fb @ ''\<newline>'' else [])
     @ ''Generate an appropriate SQL query to answer the user.''"
  unfolding build_prompt_def Let_def prompt_loop
  by (cases pm; cases fb) (simp_all add: history_of_def provided_def slice_last_def)

text \<open>
  C6. The prompt \<open>build_prompt\<close> composes is, in this order: the lines of the last five
  messages of the history (of all of them when there are fewer), in their order, a user
  message as \<open>User: <content>\<close> and an assistant message as \<open>Assistant SQL: <content>\<close>;
  the line of the new question; the line of the feedback exactly when feedback is
  provided; the fixed instruction. The contents are not shortened.
\<close>

theorem build_prompt_composition:
  "\<exists>older recent.
      history_of previous_messages = older @ recent
    \<and> length recent = min 5 (length (history_of previous_messages))
    \<and> build_prompt question fb previous_messages =
        concat (map render_turn recent)
        @ ''\<newline>User: '' @ question @ ''\<newline>''
        @ (if provided fb then ''Feedback: '' @ the fb @ ''\<newline>'' else [])
        @ ''Generate an appropriate SQL query to answer the user.''"
proof -
  let ?h = "history_of previous_messages"
  have "?h = take (length ?h - 5) ?h @ slice_last 5 ?h"
    by (simp add: slice_last_def)
  moreover have "length (slice_last 5 ?h) = min 5 (length ?h)"
    by (simp add: slice_last_def)
  ultimately show ?thesis using build_prompt_eq by blast
qed

theorem build_prompt_composition_witness:
  "\<exists>older recent.
      seven_turns = older @ recent
    \<and> length recent = 5
    \<and> build_prompt ''q4'' (Some ''use orders'') (Some seven_turns) =
        concat (map render_turn recent)
        @ ''\<newline>User: q4\<newline>Feedback: use orders\<newline>Generate an appropriate SQL query to answer the user.''"
proof -
  have "length seven_turns = 7" by (simp add: seven_turns_def)
  then show ?thesis
    using build_prompt_composition [of "Some seven_turns" "''q4''" "Some ''use orders''"]
    by (simp add: history_of_def provided_def)
qed

section \<open>Properties of the persistence\<close>

lemma traverse_map:
  "list_all (\<lambda>x. f x = Inr (g x)) xs \<Longrightarrow> traverse f xs = Inr (map g xs)"
  by (induction xs) auto

lemma json_value_iso: "\<not> is_other v \<Longrightarrow> json_value v = Inr (iso_value v)"
  by (cases v) auto

lemma json_row_iso:
  assumes "list_all (\<lambda>kv. \<not> is_other (snd kv)) r"
  shows "json_row r = Inr (map (\<lambda>kv. (fst kv, iso_value (snd kv))) r)"
  unfolding json_row_def
  by (rule traverse_map) (use assms in \<open>auto simp: list_all_iff json_value_iso\<close>)

lemma json_turn_iso:
  assumes "list_all (list_all (\<lambda>kv. \<not> is_other (snd kv))) (rows_of m)"
  shows "json_turn m = Inr (iso_turn m)"
proof (cases "result m")
  case None
  then show ?thesis by (simp add: json_turn_def iso_turn_def)
next
  case (Some rows)
  with assms have "list_all (\<lambda>r. json_row r = Inr (map (\<lambda>kv. (fst kv, iso_value (snd kv))) r)) rows"
    by (auto simp: rows_of_def list_all_iff intro!: json_row_iso)
  then have "traverse json_row rows = Inr (map (map (\<lambda>kv. (fst kv, iso_value (snd kv)))) rows)"
    by (rule traverse_map)
  with Some show ?thesis by (simp add: json_turn_def iso_turn_def)
qed

lemma json_messages_iso: "storable ms \<Longrightarrow> json_messages ms = Inr (map iso_turn ms)"
  unfolding json_messages_def storable_def
  by (rule traverse_map) (auto simp: list_all_iff json_turn_iso)




lemma iso_turn_fields [simp]: "role (iso_turn m) = role m" "content (iso_turn m) = content m"
  by (simp_all add: iso_turn_def)






section \<open>Properties of the controller\<close>

lemma sidebar_passive:
  "ev = NoEvent \<or> ev = ButtonYes \<or> ev = ButtonNo \<or> (\<exists>q. ev = ChatInput q) \<or> (\<exists>t. ev = SubmitFeedback t)
   \<Longrightarrow> sidebar vn ev s = \<lparr>st = s, notices = [], calls = [], ending = Finished\<rparr>"
  by (auto simp: sidebar_def)

lemma run_script_flow:
  "ev = NoEvent \<or> ev = ButtonYes \<or> ev = ButtonNo \<or> (\<exists>q. ev = ChatInput q) \<or> (\<exists>t. ev = SubmitFeedback t)
   \<Longrightarrow> run_script vn ev s = flow vn ev s"
  by (simp add: run_script_def sidebar_passive Let_def)

lemma is_query_safe_empty: "is_query_safe []"
  by code_simp

text \<open>
  C9. A question asked in the stage \<open>ask_question\<close> in which a keyword of the denylist
  occurs is answered with an error and nothing else: the stage stays, no message is
  appended, no file is written, neither the generator nor the executor is called.
\<close>

theorem unsafe_question_rejected:
  assumes "stage s = AskQuestion" and "\<exists>kw \<in> set FORBIDDEN_KEYWORDS. ci_occurs kw q"
  shows "run_script vn (ChatInput q) s =
           \<lparr>st = s,
            notices = [StError ''Error: Queries with DELETE, UPDATE, DROP, INSERT, or other unsafe operations are not allowed.''],
            calls = [], ending = Finished\<rparr>
         \<and> stage (st (run_script vn (ChatInput q) s)) = AskQuestion
         \<and> messages (st (run_script vn (ChatInput q) s)) = messages s
         \<and> chat_files (st (run_script vn (ChatInput q) s)) = chat_files s"
proof -
  from assms(2) have unsafe: "\<not> is_query_safe q"
    by (simp add: is_query_safe_iff)
  with is_query_safe_empty have "q \<noteq> []" by auto
  with unsafe assms(1) show ?thesis
    by (simp add: run_script_flow flow_def ask_question_def)
qed

theorem unsafe_question_rejected_witness:
  "stage (init_state ''uuid-1'') = AskQuestion
   \<and> (\<exists>kw \<in> set FORBIDDEN_KEYWORDS. ci_occurs kw ''delete all orders'')
   \<and> run_script plain_env (ChatInput ''delete all orders'') (init_state ''uuid-1'') =
       \<lparr>st = init_state ''uuid-1'',
        notices = [StError ''Error: Queries with DELETE, UPDATE, DROP, INSERT, or other unsafe operations are not allowed.''],
        calls = [], ending = Finished\<rparr>"
proof -
  have 1: "stage (init_state ''uuid-1'') = AskQuestion" by (simp add: init_state_def)
  have "\<not> is_query_safe ''delete all orders''" by code_simp
  then have 2: "\<exists>kw \<in> set FORBIDDEN_KEYWORDS. ci_occurs kw ''delete all orders''"
    by (simp add: is_query_safe_iff)
  from unsafe_question_rejected [OF 1 2, of plain_env] 1 2 show ?thesis by simp
qed

lemma same_ignoring_case_iff: "same_ignoring_case u v = (lower u = lower v)"
  unfolding same_ignoring_case_def lower_def
  by (induction u arbitrary: v) (auto simp: list_all2_Cons1)

lemma startswith_lower_iff:
  assumes "lower kw = kw"
  shows "startswith (lower s) kw = starts_ignoring_case s kw"
proof -
  have "startswith (lower s) kw = (\<exists>rest. map lower_char s = kw @ rest)"
    by (simp add: startswith_iff lower_def)
  also have "\<dots> = (\<exists>p rest. s = p @ rest \<and> lower p = kw)"
  proof
    assume "\<exists>rest. map lower_char s = kw @ rest"
    then obtain rest where "map lower_char s = kw @ rest" by blast
    then have "\<exists>us vs. s = us @ vs \<and> kw = map lower_char us \<and> rest = map lower_char vs"
      by (simp only: map_eq_append_conv)
    then show "\<exists>p rest. s = p @ rest \<and> lower p = kw"
      unfolding lower_def by metis
  next
    assume "\<exists>p rest. s = p @ rest \<and> lower p = kw"
    then show "\<exists>rest. map lower_char s = kw @ rest"
      unfolding lower_def by auto
  qed
  also have "\<dots> = starts_ignoring_case s kw"
    using assms by (simp add: starts_ignoring_case_def same_ignoring_case_iff)
  finally show ?thesis .
qed

lemma has_sql_shape_iff: "has_sql_shape text = query_shaped text"
proof -
  have "lower ''select'' = ''select''" "lower ''with'' = ''with''" "lower ''show'' = ''show''"
    "lower ''describe'' = ''describe''"
    by code_simp+
  then show ?thesis
    by (simp add: has_sql_shape_def query_shaped_def startswith_any_def startswith_lower_iff)
qed

lemma storable_append_user:
  "storable ms \<Longrightarrow> storable (ms @ [\<lparr>role = User, content = c, result = None, show_plot = None\<rparr>])"
  by (simp add: storable_def rows_of_def)


lemma save_storable_fst: "storable ms \<Longrightarrow> fst (save_chat_to_file uuid ms sid s) = None"
  by (simp add: save_chat_to_file_def Let_def json_messages_iso)

lemma save_fields [simp]:
  "stage (snd (save_chat_to_file uuid ms sid s)) = stage s"
  "messages (snd (save_chat_to_file uuid ms sid s)) = messages s"
  "user_question (snd (save_chat_to_file uuid ms sid s)) = user_question s"
  "sql (snd (save_chat_to_file uuid ms sid s)) = sql s"
  "query_result (snd (save_chat_to_file uuid ms sid s)) = query_result s"
  "user_feedback (snd (save_chat_to_file uuid ms sid s)) = user_feedback s"
  "feedback_file (snd (save_chat_to_file uuid ms sid s)) = feedback_file s"
  by (simp_all add: save_chat_to_file_def Let_def split: sum.splits)


lemma reset_fields [simp]:
  "stage (reset_to_ask_question s) = AskQuestion"
  "user_question (reset_to_ask_question s) = []"
  "sql (reset_to_ask_question s) = []"
  "query_result (reset_to_ask_question s) = None"
  "user_feedback (reset_to_ask_question s) = []"
  "messages (reset_to_ask_question s) = messages s"
  "session_id (reset_to_ask_question s) = session_id s"
  "chat_files (reset_to_ask_question s) = chat_files s"
  "feedback_file (reset_to_ask_question s) = feedback_file s"
  by (simp_all add: reset_to_ask_question_def)





lemma get_feedback_calls:
  assumes "stage s = GetFeedback" and "strip typed \<noteq> []"
  shows "calls (run_script vn (SubmitFeedback typed) s) =
           [GenerateSql (build_prompt (user_question s) (Some (strip typed)) None)]"
  using assms
  by (simp add: run_script_flow flow_def get_feedback_def Let_def generate_sql_with_feedback_def
      split: sum.splits prod.splits option.splits)

lemma ask_question_calls:
  assumes "stage s = AskQuestion" and "q \<noteq> []" and "is_query_safe q" and "storable (messages s)"
  shows "calls (run_script vn (ChatInput q) s) =
           [GenerateSql (build_prompt q None (Some (messages s @ [user_turn q])))]"
proof -
  let ?ms = "messages s @ [\<lparr>role = User, content = q, result = None, show_plot = None\<rparr>]"
  let ?s1 = "s\<lparr>user_question := q, messages := ?ms\<rparr>"
  have "fst (save_chat_to_file (uuid4 vn 0) ?ms (session_id s) ?s1) = None"
    using assms(4) by (intro save_storable_fst storable_append_user)
  then obtain s2 where save: "save_chat_to_file (uuid4 vn 0) ?ms (session_id s) ?s1 = (None, s2)"
    by (metis prod.collapse)
  then have "s2 = snd (save_chat_to_file (uuid4 vn 0) ?ms (session_id s) ?s1)" by simp
  then have "messages s2 = ?ms" by simp
  then show ?thesis
    using assms(1-3) save
    by (simp add: run_script_flow flow_def ask_question_def Let_def generate_sql_with_feedback_def
        user_turn_def split: sum.splits)
qed

lemma new_question_calls:
  assumes "stage s = AskFeedback" and "q \<noteq> []" and "storable (messages s)"
  shows "calls (run_script vn (ChatInput q) s) =
           [GenerateSql (build_prompt q None (Some (messages s @ [user_turn q])))]"
proof -
  let ?ms = "messages s @ [\<lparr>role = User, content = q, result = None, show_plot = None\<rparr>]"
  let ?s1 = "(reset_to_ask_question s)\<lparr>user_question := q, messages := ?ms\<rparr>"
  have "fst (save_chat_to_file (uuid4 vn 0) ?ms (session_id s) ?s1) = None"
    using assms(3) by (intro save_storable_fst storable_append_user)
  then obtain s2 where save: "save_chat_to_file (uuid4 vn 0) ?ms (session_id s) ?s1 = (None, s2)"
    by (metis prod.collapse)
  then have "s2 = snd (save_chat_to_file (uuid4 vn 0) ?ms (session_id s) ?s1)" by simp
  then have "messages s2 = ?ms" by simp
  then show ?thesis
    using assms(1,2) save
    by (simp add: run_script_flow flow_def ask_feedback_def Let_def generate_sql_with_feedback_def
        user_turn_def split: sum.splits)
qed

text \<open>
  C10. The regeneration of the stage \<open>get_feedback\<close> calls the generator once, with a
  prompt made of the question and the feedback only: no line of the history is in it,
  and the messages of the session have no influence on it. The two paths that generate
  for a question pass the messages, and their prompt starts with the lines of the last
  five.
\<close>

theorem regeneration_without_history:
  assumes "stage s = GetFeedback" and "strip typed \<noteq> []"
  shows "calls (run_script vn (SubmitFeedback typed) s) =
           [GenerateSql (''\<newline>User: '' @ user_question s @ ''\<newline>Feedback: '' @ strip typed
                         @ ''\<newline>Generate an appropriate SQL query to answer the user.'')]
    \<and> calls (run_script vn (SubmitFeedback typed) (s\<lparr>messages := ms\<rparr>)) =
        calls (run_script vn (SubmitFeedback typed) s)
    \<and> (\<forall>s' q. (stage s' = AskQuestion \<and> is_query_safe q \<or> stage s' = AskFeedback) \<and> q \<noteq> []
            \<and> storable (messages s')
          \<longrightarrow> calls (run_script vn (ChatInput q) s') =
                [GenerateSql (concat (map render_turn (slice_last 5 (messages s' @ [user_turn q])))
                              @ ''\<newline>User: '' @ q
                              @ ''\<newline>Generate an appropriate SQL query to answer the user.'')])"
proof -
  have p: "\<And>q f. f \<noteq> [] \<Longrightarrow> build_prompt q (Some f) None =
      ''\<newline>User: '' @ q @ ''\<newline>Feedback: '' @ f
      @ ''\<newline>Generate an appropriate SQL query to answer the user.''"
    by (simp add: build_prompt_eq history_of_def provided_def slice_last_def)
  have 1: "calls (run_script vn (SubmitFeedback typed) s) =
           [GenerateSql (''\<newline>User: '' @ user_question s @ ''\<newline>Feedback: '' @ strip typed
                         @ ''\<newline>Generate an appropriate SQL query to answer the user.'')]"
    using get_feedback_calls [OF assms] p [OF assms(2)] by simp
  have "stage (s\<lparr>messages := ms\<rparr>) = GetFeedback" using assms(1) by simp
  from get_feedback_calls [OF this assms(2), of vn]
  have 2: "calls (run_script vn (SubmitFeedback typed) (s\<lparr>messages := ms\<rparr>)) =
        calls (run_script vn (SubmitFeedback typed) s)"
    using get_feedback_calls [OF assms, of vn] by simp
  have q: "\<And>q h. build_prompt q None (Some h) =
      concat (map render_turn (slice_last 5 h)) @ ''\<newline>User: '' @ q
      @ ''\<newline>Generate an appropriate SQL query to answer the user.''"
    by (simp add: build_prompt_eq history_of_def provided_def)
  have 3: "\<forall>s' q. (stage s' = AskQuestion \<and> is_query_safe q \<or> stage s' = AskFeedback) \<and> q \<noteq> []
            \<and> storable (messages s')
          \<longrightarrow> calls (run_script vn (ChatInput q) s') =
                [GenerateSql (concat (map render_turn (slice_last 5 (messages s' @ [user_turn q])))
                              @ ''\<newline>User: '' @ q
                              @ ''\<newline>Generate an appropriate SQL query to answer the user.'')]"
    using ask_question_calls new_question_calls q by auto
  from 1 2 3 show ?thesis by blast
qed

theorem regeneration_without_history_witness:
  "stage (declined plain_env) = GetFeedback
   \<and> strip '' wrong column '' \<noteq> []
   \<and> user_question (declined plain_env) = ''list the orders''
   \<and> calls (run_script plain_env (SubmitFeedback '' wrong column '') (declined plain_env)) =
       [GenerateSql ''\<newline>User: list the orders\<newline>Feedback: wrong column\<newline>Generate an appropriate SQL query to answer the user.'']"
proof -
  have 1: "stage (declined plain_env) = GetFeedback" by code_simp
  have 2: "strip '' wrong column '' \<noteq> []" by code_simp
  have 3: "user_question (declined plain_env) = ''list the orders''" by code_simp
  have 4: "strip '' wrong column '' = ''wrong column''" by code_simp
  from regeneration_without_history [OF 1 2, of plain_env] 1 2 3 4 show ?thesis
    by simp
qed










section \<open>What the reachable states store\<close>

lemma traverse_Inr:
  "traverse f xs = Inr ys \<Longrightarrow> list_all2 (\<lambda>x y. f x = Inr y) xs ys"
  by (induction xs arbitrary: ys) (auto split: sum.splits)

lemma json_turn_fields:
  "json_turn m = Inr m' \<Longrightarrow> role m' = role m \<and> content m' = content m"
  by (auto simp: json_turn_def split: option.splits sum.splits)

lemma shaped_turns_transfer:
  "list_all2 (\<lambda>x y. role y = role x \<and> content y = content x) ms ms' \<Longrightarrow>
   shaped_turns ms \<Longrightarrow> shaped_turns ms'"
  by (induction rule: list_all2_induct) (auto simp: shaped_turns_def)

lemma json_messages_shaped:
  assumes "json_messages ms = Inr ms'" and "shaped_turns ms"
  shows "shaped_turns ms'"
proof -
  from assms(1) have "list_all2 (\<lambda>x y. json_turn x = Inr y) ms ms'"
    unfolding json_messages_def by (rule traverse_Inr)
  then have "list_all2 (\<lambda>x y. role y = role x \<and> content y = content x) ms ms'"
    by (rule list_all2_mono) (simp add: json_turn_fields)
  then show ?thesis using assms(2) by (rule shaped_turns_transfer)
qed

lemma save_shaped_files:
  assumes "shaped_files s" and "shaped_turns ms"
  shows "shaped_files (snd (save_chat_to_file uuid ms sid s))"
proof (cases "json_messages ms")
  case (Inl e)
  with assms(1) show ?thesis
    by (auto simp: save_chat_to_file_def Let_def shaped_files_def)
next
  case (Inr ms')
  from Inr assms(2) have "shaped_turns ms'" by (rule json_messages_shaped)
  with Inr assms(1) show ?thesis
    by (auto simp: save_chat_to_file_def Let_def shaped_files_def)
qed

lemma save_shape_inv:
  assumes "shape_inv s" and "shaped_turns ms"
  shows "shape_inv (snd (save_chat_to_file uuid ms sid s))"
  using assms save_shaped_files [of s ms uuid sid]
  by (simp add: shape_inv_def shaped_feedback_def)

lemma shaped_turns_append [simp]:
  "shaped_turns (xs @ ys) = (shaped_turns xs \<and> shaped_turns ys)"
  by (simp add: shaped_turns_def)

lemma shaped_turns_butlast: "shaped_turns ms \<Longrightarrow> shaped_turns (butlast ms)"
  unfolding shaped_turns_def list_all_iff by (auto dest: in_set_butlastD)

lemma shaped_turns_simps [simp]:
  "shaped_turns [] = True"
  "shaped_turns (m # ms) =
     ((role m = Assistant \<longrightarrow> content m = ''Manual SQL Execution'' \<or> has_sql_shape (content m))
      \<and> shaped_turns ms)"
  by (simp_all add: shaped_turns_def)

lemma shape_inv_reset: "shape_inv s \<Longrightarrow> shape_inv (reset_to_ask_question s)"
  by (simp add: shape_inv_def shaped_files_def shaped_feedback_def)

lemma shape_inv_init: "shape_inv (init_state sid)"
  by (simp add: shape_inv_def init_state_def shaped_turns_def shaped_files_def shaped_feedback_def)

lemma shaped_files_update [simp]:
  "shaped_files (s\<lparr>messages := ms\<rparr>) = shaped_files s"
  "shaped_files (s\<lparr>user_question := q\<rparr>) = shaped_files s"
  "shaped_files (s\<lparr>sql := t\<rparr>) = shaped_files s"
  "shaped_files (s\<lparr>stage := g\<rparr>) = shaped_files s"
  "shaped_files (s\<lparr>query_result := r\<rparr>) = shaped_files s"
  "shaped_files (s\<lparr>user_feedback := f\<rparr>) = shaped_files s"
  "shaped_files (s\<lparr>session_id := i\<rparr>) = shaped_files s"
  "shaped_files (s\<lparr>feedback_file := d\<rparr>) = shaped_files s"
  by (simp_all add: shaped_files_def)

lemma shaped_feedback_update [simp]:
  "shaped_feedback (s\<lparr>messages := ms\<rparr>) = shaped_feedback s"
  "shaped_feedback (s\<lparr>user_question := q\<rparr>) = shaped_feedback s"
  "shaped_feedback (s\<lparr>sql := t\<rparr>) = shaped_feedback s"
  "shaped_feedback (s\<lparr>stage := g\<rparr>) = shaped_feedback s"
  "shaped_feedback (s\<lparr>query_result := r\<rparr>) = shaped_feedback s"
  "shaped_feedback (s\<lparr>user_feedback := f\<rparr>) = shaped_feedback s"
  "shaped_feedback (s\<lparr>session_id := i\<rparr>) = shaped_feedback s"
  "shaped_feedback (s\<lparr>chat_files := c\<rparr>) = shaped_feedback s"
  by (simp_all add: shaped_feedback_def)

lemma shape_inv_accept:
  "shape_inv s \<Longrightarrow> has_sql_shape t \<Longrightarrow> shape_inv (s\<lparr>sql := t, stage := g\<rparr>)"
  by (simp add: shape_inv_def)

lemma shape_inv_ask_question:
  assumes "shape_inv s"
  shows "shape_inv (st (ask_question vn q s))"
proof (cases "is_query_safe q")
  case False
  with assms show ?thesis by (simp add: ask_question_def)
next
  case True
  let ?ms = "messages s @ [\<lparr>role = User, content = q, result = None, show_plot = None\<rparr>]"
  let ?s1 = "s\<lparr>user_question := q, messages := ?ms\<rparr>"
  obtain e s2 where save: "save_chat_to_file (uuid4 vn 0) ?ms (session_id s) ?s1 = (e, s2)"
    by (metis prod.collapse)
  then have s2: "s2 = snd (save_chat_to_file (uuid4 vn 0) ?ms (session_id s) ?s1)" by simp
  have "shape_inv ?s1" "shaped_turns ?ms"
    using assms by (simp_all add: shape_inv_def)
  then have inv2: "shape_inv s2" unfolding s2 by (rule save_shape_inv)
  show ?thesis
  proof (cases e)
    case (Some x)
    with True save inv2 show ?thesis by (simp add: ask_question_def Let_def)
  next
    case None
    show ?thesis
    proof (cases "vn_generate_sql vn (build_prompt q None (Some (messages s2)))")
      case (Inl x)
      with True save None inv2 show ?thesis
        by (simp add: ask_question_def Let_def generate_sql_with_feedback_def)
    next
      case (Inr generated)
      with True save None inv2 show ?thesis
        by (simp add: ask_question_def Let_def generate_sql_with_feedback_def shape_inv_accept)
    qed
  qed
qed

lemma shape_inv_show_query:
  assumes "shape_inv s" and "stage s = ShowQuery"
  shows "shape_inv (st (show_query vn s))"
proof (cases "vn_run_sql vn (sql s)")
  case (Inl e)
  with assms(1) show ?thesis by (simp add: show_query_def shape_inv_reset)
next
  case (Inr rows)
  let ?s1 = "s\<lparr>query_result := Some rows\<rparr>"
  let ?s2 = "if messages ?s1 \<noteq> [] \<and> role (last (messages ?s1)) = Assistant
             then (if content (last (messages ?s1)) = sql ?s1
                   then ?s1\<lparr>messages := butlast (messages ?s1)\<rparr> else ?s1)
             else ?s1"
  let ?s3 = "?s2\<lparr>messages := messages ?s2 @
               [\<lparr>role = Assistant, content = sql ?s2, result = Some rows,
                 show_plot = Some (user_wants_plot (user_question ?s1))\<rparr>]\<rparr>"
  obtain e s4 where save: "save_chat_to_file (uuid4 vn 0) (messages ?s3) (session_id ?s3) ?s3 = (e, s4)"
    by (metis prod.collapse)
  then have s4: "s4 = snd (save_chat_to_file (uuid4 vn 0) (messages ?s3) (session_id ?s3) ?s3)"
    by simp
  have shaped: "has_sql_shape (sql s)"
    using assms by (simp add: shape_inv_def)
  have "shape_inv ?s2"
    using assms(1) by (simp add: shape_inv_def shaped_turns_butlast)
  moreover have "sql ?s2 = sql s" by simp
  ultimately have "shape_inv ?s3" "shaped_turns (messages ?s3)"
    using shaped by (simp_all add: shape_inv_def)
  then have inv4: "shape_inv s4" unfolding s4 by (rule save_shape_inv)
  have sql4: "has_sql_shape (sql s4)" unfolding s4 using shaped by simp
  show ?thesis
  proof (cases e)
    case None
    with Inr save have "st (show_query vn s) = s4\<lparr>stage := AskFeedback\<rparr>"
      unfolding show_query_def Let_def by simp
    with inv4 sql4 show ?thesis by (simp add: shape_inv_def)
  next
    case (Some x)
    with Inr save have "st (show_query vn s) = reset_to_ask_question s4"
      unfolding show_query_def Let_def by simp
    with inv4 show ?thesis by (simp add: shape_inv_reset)
  qed
qed

lemma shape_inv_ask_feedback:
  assumes "shape_inv s" and "stage s = AskFeedback"
  shows "shape_inv (st (ask_feedback vn ev s))"
proof (cases ev)
  case ButtonYes
  with assms(1) show ?thesis by (simp add: ask_feedback_def shape_inv_reset)
next
  case ButtonNo
  with assms show ?thesis by (simp add: ask_feedback_def shape_inv_def)
next
  case (ChatInput q)
  show ?thesis
  proof (cases "q = []")
    case True
    with ChatInput assms(1) show ?thesis by (simp add: ask_feedback_def)
  next
    case False
    let ?s0 = "reset_to_ask_question s"
    let ?ms = "messages ?s0 @ [\<lparr>role = User, content = q, result = None, show_plot = None\<rparr>]"
    let ?s1 = "?s0\<lparr>user_question := q, messages := ?ms\<rparr>"
    obtain e s2 where save: "save_chat_to_file (uuid4 vn 0) (messages ?s1) (session_id ?s1) ?s1 = (e, s2)"
      by (metis prod.collapse)
    then have s2: "s2 = snd (save_chat_to_file (uuid4 vn 0) (messages ?s1) (session_id ?s1) ?s1)"
      by simp
    have "shape_inv ?s0" using assms(1) by (rule shape_inv_reset)
    then have "shape_inv ?s1" "shaped_turns (messages ?s1)"
      by (simp_all add: shape_inv_def)
    then have inv2: "shape_inv s2" unfolding s2 by (rule save_shape_inv)
    show ?thesis
    proof (cases e)
      case (Some x)
      with ChatInput False save inv2 show ?thesis by (simp add: ask_feedback_def Let_def)
    next
      case None
      show ?thesis
      proof (cases "vn_generate_sql vn (build_prompt q None (Some (messages s2)))")
        case (Inl x)
        with ChatInput False save None inv2 show ?thesis
          by (simp add: ask_feedback_def Let_def generate_sql_with_feedback_def)
      next
        case (Inr generated)
        with ChatInput False save None inv2 show ?thesis
          by (simp add: ask_feedback_def Let_def generate_sql_with_feedback_def shape_inv_accept)
      qed
    qed
  qed
qed (use assms(1) in \<open>simp_all add: ask_feedback_def\<close>)

lemma shape_inv_get_feedback:
  assumes "shape_inv s" and "stage s = GetFeedback"
  shows "shape_inv (st (get_feedback vn typed s))"
proof -
  let ?s1 = "s\<lparr>user_feedback := typed\<rparr>"
  let ?fb = "strip typed"
  have inv1: "shape_inv ?s1" using assms(1) by (simp add: shape_inv_def)
  have old: "has_sql_shape (sql s)" using assms by (simp add: shape_inv_def)
  show ?thesis
  proof (cases "?fb = []")
    case True
    with inv1 show ?thesis by (simp add: get_feedback_def Let_def)
  next
    case False
    show ?thesis
    proof (cases "vn_generate_sql vn (build_prompt (user_question s) (Some ?fb) None)")
      case (Inl x)
      with False inv1 show ?thesis
        by (simp add: get_feedback_def Let_def generate_sql_with_feedback_def)
    next
      case (Inr new_sql)
      show ?thesis
      proof (cases "has_sql_shape new_sql")
        case no: False
        with False Inr inv1 show ?thesis
          by (simp add: get_feedback_def Let_def generate_sql_with_feedback_def)
      next
        case yes: True
        let ?s2 = "append_feedback_to_json (uuid4 vn 0) (user_question s) (sql s) ?fb new_sql ?s1"
        let ?ms = "messages ?s2 @
                     [\<lparr>role = User, content = ''Feedback: '' @ ?fb, result = None, show_plot = None\<rparr>,
                      \<lparr>role = Assistant, content = new_sql, result = None, show_plot = None\<rparr>]"
        let ?s3 = "?s2\<lparr>sql := new_sql, messages := ?ms\<rparr>"
        obtain e s4 where save:
          "save_chat_to_file (uuid4 vn 1) (messages ?s3) (session_id ?s3) ?s3 = (e, s4)"
          by (metis prod.collapse)
        then have s4: "s4 = snd (save_chat_to_file (uuid4 vn 1) (messages ?s3) (session_id ?s3) ?s3)"
          by simp
        have inv2: "shape_inv ?s2"
          using inv1 old yes
          by (auto simp: append_feedback_to_json_def Let_def shape_inv_def shaped_files_def
              shaped_feedback_def split: option.splits)
        have m2: "messages ?s2 = messages s"
          by (simp add: append_feedback_to_json_def Let_def)
        have "shape_inv ?s3" "shaped_turns (messages ?s3)"
          using inv2 yes m2 by (simp_all add: shape_inv_def)
        then have inv4: "shape_inv s4" unfolding s4 by (rule save_shape_inv)
        have sql4: "has_sql_shape (sql s4)" unfolding s4 using yes by simp
        have "st (get_feedback vn typed s) = s4 \<or> st (get_feedback vn typed s) = s4\<lparr>stage := ShowQuery\<rparr>"
          using False Inr yes save
          by (cases e) (simp_all add: get_feedback_def Let_def generate_sql_with_feedback_def)
        with inv4 sql4 show ?thesis by (auto simp: shape_inv_def)
      qed
    qed
  qed
qed

lemma shape_inv_run_manual_sql:
  assumes "shape_inv s"
  shows "shape_inv (st (run_manual_sql vn manual_sql s))"
proof (cases "is_query_safe manual_sql")
  case False
  with assms show ?thesis by (simp add: run_manual_sql_def)
next
  case True
  show ?thesis
  proof (cases "vn_run_sql vn manual_sql")
    case (Inl e)
    with True assms show ?thesis by (simp add: run_manual_sql_def)
  next
    case (Inr manual_result)
    let ?ms = "messages s @
                 [\<lparr>role = User, content = manual_sql, result = None, show_plot = None\<rparr>,
                  \<lparr>role = Assistant, content = ''Manual SQL Execution'',
                   result = Some manual_result,
                   show_plot = Some (user_wants_plot manual_sql)\<rparr>]"
    let ?s1 = "s\<lparr>messages := ?ms\<rparr>"
    obtain e s2 where save: "save_chat_to_file (uuid4 vn 0) (messages ?s1) (session_id ?s1) ?s1 = (e, s2)"
      by (metis prod.collapse)
    then have s2: "s2 = snd (save_chat_to_file (uuid4 vn 0) (messages ?s1) (session_id ?s1) ?s1)"
      by simp
    have "shape_inv ?s1" "shaped_turns (messages ?s1)"
      using assms by (simp_all add: shape_inv_def)
    then have inv2: "shape_inv s2" unfolding s2 by (rule save_shape_inv)
    have "st (run_manual_sql vn manual_sql s) = s2"
      using True Inr save by (cases e) (simp_all add: run_manual_sql_def Let_def)
    with inv2 show ?thesis by simp
  qed
qed

lemma shape_inv_sidebar:
  assumes "shape_inv s"
  shows "shape_inv (st (sidebar vn ev s))"
proof (cases ev)
  case NewChat
  with assms show ?thesis
    by (simp add: sidebar_def init_state_def shape_inv_def shaped_files_def shaped_feedback_def
        shaped_turns_def)
next
  case (RunManualSQL manual_sql)
  with assms show ?thesis by (simp add: sidebar_def shape_inv_run_manual_sql)
next
  case (LoadChat sid)
  show ?thesis
  proof (cases "chat_files s sid")
    case None
    with LoadChat assms show ?thesis by (simp add: sidebar_def listed_def)
  next
    case (Some f)
    show ?thesis
    proof (cases f)
      case Corrupt
      with Some LoadChat assms show ?thesis by (simp add: sidebar_def listed_def)
    next
      case (Chat title ms)
      with Some assms have "shaped_turns ms"
        by (auto simp: shape_inv_def shaped_files_def)
      with Chat Some LoadChat assms show ?thesis
        by (simp add: sidebar_def listed_def load_chat_def shape_inv_def)
    qed
  qed
next
  case (DeleteChat sid)
  with assms show ?thesis
    by (auto simp: sidebar_def delete_chat_def shape_inv_def shaped_files_def shaped_feedback_def
        split: if_splits)
qed (use assms in \<open>simp_all add: sidebar_def\<close>)

lemma shape_inv_flow:
  assumes "shape_inv s"
  shows "shape_inv (st (flow vn ev s))"
proof (cases "stage s")
  case AskQuestion
  with assms show ?thesis
    by (cases ev) (simp_all add: flow_def shape_inv_ask_question)
next
  case ShowQuery
  with assms show ?thesis by (simp add: flow_def shape_inv_show_query)
next
  case AskFeedback
  with assms show ?thesis by (simp add: flow_def shape_inv_ask_feedback)
next
  case GetFeedback
  with assms show ?thesis
    by (cases ev) (simp_all add: flow_def shape_inv_get_feedback)
qed

lemma shape_inv_run_script:
  assumes "shape_inv s"
  shows "shape_inv (st (run_script vn ev s))"
  using shape_inv_sidebar [OF assms, of vn ev] shape_inv_flow [of "st (sidebar vn ev s)" vn ev]
  by (simp add: run_script_def Let_def)

lemma reachable_shape_inv: "reachable s r \<Longrightarrow> shape_inv s"
  by (induction rule: reachable.induct) (simp_all add: shape_inv_init shape_inv_run_script)

lemma idle_run:
  "stage s \<noteq> ShowQuery \<Longrightarrow>
   run_script vn NoEvent s = \<lparr>st = s, notices = [], calls = [], ending = Finished\<rparr>"
  by (cases "stage s") (simp_all add: run_script_flow flow_def ask_feedback_def)

lemma reachable_settled:
  assumes "reachable s True" and "stage s \<noteq> ShowQuery"
  shows "reachable s False"
  using reachable.rerun [OF assms(1), of vn] idle_run [OF assms(2)] by simp

lemma reachable_asked:
  "reachable (asked vn) (ending (run_script vn (ChatInput ''list the orders'') (init_state ''uuid-1'')) = Rerun)"
  unfolding asked_def by (rule reachable.user_run) (rule reachable.start)

lemma reachable_answered_plain: "reachable (answered plain_env) True"
proof -
  have 1: "ending (run_script plain_env (ChatInput ''list the orders'') (init_state ''uuid-1'')) = Rerun"
    by code_simp
  have 2: "ending (run_script plain_env NoEvent (asked plain_env)) = Rerun"
    by code_simp
  from reachable_asked [of plain_env] 1 have "reachable (asked plain_env) True" by simp
  from reachable.rerun [OF this, of plain_env] 2 show ?thesis by (simp add: answered_def)
qed

lemma reachable_asked_rogue: "reachable (asked rogue_env) True"
proof -
  have "ending (run_script rogue_env (ChatInput ''list the orders'') (init_state ''uuid-1'')) = Rerun"
    by code_simp
  with reachable_asked [of rogue_env] show ?thesis by simp
qed

lemma reachable_answered_rogue: "reachable (answered rogue_env) True"
proof -
  have "ending (run_script rogue_env NoEvent (asked rogue_env)) = Rerun"
    by code_simp
  with reachable.rerun [OF reachable_asked_rogue, of rogue_env] show ?thesis
    by (simp add: answered_def)
qed

lemma reachable_regenerated_plain: "reachable (regenerated plain_env) True"
proof -
  have a: "stage (answered plain_env) \<noteq> ShowQuery" by code_simp
  have r3: "reachable (answered plain_env) False"
    using reachable_answered_plain a by (rule reachable_settled)
  have b: "ending (run_script plain_env ButtonNo (answered plain_env)) = Rerun" by code_simp
  from reachable.user_run [OF r3, of plain_env ButtonNo] b
  have r4: "reachable (declined plain_env) True" by (simp add: declined_def)
  have c: "stage (declined plain_env) \<noteq> ShowQuery" by code_simp
  have r5: "reachable (declined plain_env) False"
    using r4 c by (rule reachable_settled)
  have d: "ending (run_script plain_env (SubmitFeedback ''wrong column'') (declined plain_env)) = Rerun"
    by code_simp
  from reachable.user_run [OF r5, of plain_env "SubmitFeedback ''wrong column''"] d
  show ?thesis by (simp add: regenerated_def)
qed

text \<open>
  C1, as amended. In every state the application reaches, every assistant message of the
  session and of every readable session file holds either the label of a manual run or
  text that passed the shape check, and both SQL texts of every feedback entry passed the
  shape check.
\<close>

theorem stored_sql_passed_shape_check:
  assumes "reachable s r"
  shows
    "(\<forall>m \<in> set (messages s). role m = Assistant \<longrightarrow>
        content m = ''Manual SQL Execution'' \<or> query_shaped (content m))
   \<and> (\<forall>sid title ms. chat_files s sid = Some (Chat title ms) \<longrightarrow>
        (\<forall>m \<in> set ms. role m = Assistant \<longrightarrow>
           content m = ''Manual SQL Execution'' \<or> query_shaped (content m)))
   \<and> (\<forall>d. feedback_file s = Some d \<longrightarrow>
        (\<forall>e \<in> set d. query_shaped (incorrect_sql e) \<and> query_shaped (correct_sql e)))"
proof -
  from assms have "shape_inv s" by (rule reachable_shape_inv)
  then show ?thesis
    unfolding shape_inv_def shaped_files_def shaped_feedback_def shaped_turns_def list_all_iff
      has_sql_shape_iff
    by (auto split: option.splits)
qed

theorem stored_sql_passed_shape_check_witness:
  "reachable (regenerated plain_env) True
   \<and> role (last (messages (regenerated plain_env))) = Assistant
   \<and> content (last (messages (regenerated plain_env))) = ''select * from orders''
   \<and> query_shaped (content (last (messages (regenerated plain_env))))
   \<and> feedback_file (regenerated plain_env) =
        Some [\<lparr>entry_id = ''uuid-2'', entry_user_question = ''list the orders'',
               incorrect_sql = ''select * from orders'', feedback = ''wrong column'',
               correct_sql = ''select * from orders''\<rparr>]
   \<and> query_shaped ''select * from orders''"
proof -
  let ?R = "regenerated plain_env"
  have ne: "messages ?R \<noteq> []" by code_simp
  then have 1: "last (messages ?R) \<in> set (messages ?R)" by (rule last_in_set)
  have 2: "role (last (messages ?R)) = Assistant" by code_simp
  have 3: "content (last (messages ?R)) = ''select * from orders''" by code_simp
  have 4: "feedback_file ?R =
        Some [\<lparr>entry_id = ''uuid-2'', entry_user_question = ''list the orders'',
               incorrect_sql = ''select * from orders'', feedback = ''wrong column'',
               correct_sql = ''select * from orders''\<rparr>]"
    by code_simp
  have "content (last (messages ?R)) = ''Manual SQL Execution''
        \<or> query_shaped (content (last (messages ?R)))"
    using stored_sql_passed_shape_check [OF reachable_regenerated_plain] 1 2 by blast
  with 3 have 5: "query_shaped (content (last (messages ?R)))" by simp
  with 3 have 6: "query_shaped ''select * from orders''" by simp
  from reachable_regenerated_plain 2 3 5 4 6 show ?thesis by blast
qed

text \<open>
  Generated text that starts with \<open>SELECT\<close> and goes on with \<open>DROP\<close> passes the shape
  check, is executed and is stored as an assistant message, though \<open>is_query_safe\<close>
  rejects it.
\<close>

theorem stored_sql_passed_safety_gate_counterexample:
  "reachable (answered rogue_env) True
   \<and> role (last (messages (answered rogue_env))) = Assistant
   \<and> content (last (messages (answered rogue_env))) = ''SELECT 1; DROP TABLE orders''
   \<and> \<not> is_query_safe (content (last (messages (answered rogue_env))))"
proof -
  have 1: "role (last (messages (answered rogue_env))) = Assistant" by code_simp
  have 2: "content (last (messages (answered rogue_env))) = ''SELECT 1; DROP TABLE orders''"
    by code_simp
  have 3: "\<not> is_query_safe (content (last (messages (answered rogue_env))))" by code_simp
  from reachable_answered_rogue 1 2 3 show ?thesis by blast
qed

section \<open>What reaches the executor\<close>

lemma run_manual_sql_calls:
  "calls (run_manual_sql vn manual_sql s) = (if is_query_safe manual_sql then [RunSql manual_sql] else [])"
proof (cases "is_query_safe manual_sql")
  case False
  then show ?thesis by (simp add: run_manual_sql_def)
next
  case True
  show ?thesis
  proof (cases "vn_run_sql vn manual_sql")
    case (Inl e)
    with True show ?thesis by (simp add: run_manual_sql_def)
  next
    case (Inr manual_result)
    let ?s1 = "s\<lparr>messages := messages s @
                 [\<lparr>role = User, content = manual_sql, result = None, show_plot = None\<rparr>,
                  \<lparr>role = Assistant, content = ''Manual SQL Execution'',
                   result = Some manual_result,
                   show_plot = Some (user_wants_plot manual_sql)\<rparr>]\<rparr>"
    obtain e s2 where "save_chat_to_file (uuid4 vn 0) (messages ?s1) (session_id ?s1) ?s1 = (e, s2)"
      by (metis prod.collapse)
    with True Inr show ?thesis
      by (cases e) (simp_all add: run_manual_sql_def Let_def)
  qed
qed

lemma sidebar_calls:
  "RunSql t \<in> set (calls (sidebar vn ev s)) \<Longrightarrow> is_query_safe t"
  by (cases ev) (auto simp: sidebar_def run_manual_sql_calls split: if_splits sum.splits)

lemma show_query_calls: "calls (show_query vn s) = [RunSql (sql s)]"
proof (cases "vn_run_sql vn (sql s)")
  case (Inl e)
  then show ?thesis by (simp add: show_query_def)
next
  case (Inr rows)
  let ?s1 = "s\<lparr>query_result := Some rows\<rparr>"
  let ?s2 = "if messages ?s1 \<noteq> [] \<and> role (last (messages ?s1)) = Assistant
             then (if content (last (messages ?s1)) = sql ?s1
                   then ?s1\<lparr>messages := butlast (messages ?s1)\<rparr> else ?s1)
             else ?s1"
  let ?s3 = "?s2\<lparr>messages := messages ?s2 @
               [\<lparr>role = Assistant, content = sql ?s2, result = Some rows,
                 show_plot = Some (user_wants_plot (user_question ?s1))\<rparr>]\<rparr>"
  obtain e s4 where "save_chat_to_file (uuid4 vn 0) (messages ?s3) (session_id ?s3) ?s3 = (e, s4)"
    by (metis prod.collapse)
  with Inr show ?thesis
    unfolding show_query_def Let_def by (cases e) simp_all
qed

lemma ask_question_no_execution: "RunSql t \<notin> set (calls (ask_question vn q s))"
proof (cases "is_query_safe q")
  case False
  then show ?thesis by (simp add: ask_question_def)
next
  case True
  let ?s1 = "s\<lparr>user_question := q,
               messages := messages s @
                 [\<lparr>role = User, content = q, result = None, show_plot = None\<rparr>]\<rparr>"
  obtain e s2 where "save_chat_to_file (uuid4 vn 0) (messages ?s1) (session_id ?s1) ?s1 = (e, s2)"
    by (metis prod.collapse)
  with True show ?thesis
    by (cases e)
      (auto simp: ask_question_def Let_def generate_sql_with_feedback_def split: sum.splits)
qed

lemma ask_feedback_no_execution: "RunSql t \<notin> set (calls (ask_feedback vn ev s))"
proof (cases ev)
  case (ChatInput q)
  let ?s0 = "reset_to_ask_question s"
  let ?s1 = "?s0\<lparr>user_question := q,
               messages := messages ?s0 @
                 [\<lparr>role = User, content = q, result = None, show_plot = None\<rparr>]\<rparr>"
  obtain e s2 where "save_chat_to_file (uuid4 vn 0) (messages ?s1) (session_id ?s1) ?s1 = (e, s2)"
    by (metis prod.collapse)
  with ChatInput show ?thesis
    by (cases e)
      (auto simp: ask_feedback_def Let_def generate_sql_with_feedback_def split: sum.splits)
qed (simp_all add: ask_feedback_def)

lemma get_feedback_no_execution: "RunSql t \<notin> set (calls (get_feedback vn typed s))"
proof -
  let ?s1 = "s\<lparr>user_feedback := typed\<rparr>"
  show ?thesis
  proof (cases "vn_generate_sql vn (build_prompt (user_question s) (Some (strip typed)) None)")
    case (Inl x)
    then show ?thesis
      by (simp add: get_feedback_def Let_def generate_sql_with_feedback_def)
  next
    case (Inr new_sql)
    let ?s2 = "append_feedback_to_json (uuid4 vn 0) (user_question s) (sql s) (strip typed)
                 new_sql ?s1"
    let ?s3 = "?s2\<lparr>sql := new_sql,
                 messages := messages ?s2 @
                   [\<lparr>role = User, content = ''Feedback: '' @ strip typed, result = None,
                     show_plot = None\<rparr>,
                    \<lparr>role = Assistant, content = new_sql, result = None, show_plot = None\<rparr>]\<rparr>"
    obtain e s4 where "save_chat_to_file (uuid4 vn 1) (messages ?s3) (session_id ?s3) ?s3 = (e, s4)"
      by (metis prod.collapse)
    with Inr show ?thesis
      by (cases e) (simp_all add: get_feedback_def Let_def generate_sql_with_feedback_def)
  qed
qed

lemma flow_calls:
  assumes "RunSql t \<in> set (calls (flow vn ev s))"
  shows "stage s = ShowQuery \<and> t = sql s"
proof (cases "stage s")
  case AskQuestion
  with assms show ?thesis
    by (cases ev) (auto simp: flow_def ask_question_no_execution split: if_splits)
next
  case ShowQuery
  with assms show ?thesis by (simp add: flow_def show_query_calls)
next
  case AskFeedback
  with assms show ?thesis by (simp add: flow_def ask_feedback_no_execution)
next
  case GetFeedback
  with assms show ?thesis
    by (cases ev) (auto simp: flow_def get_feedback_no_execution)
qed

lemma run_script_calls:
  assumes "shape_inv s" and "RunSql t \<in> set (calls (run_script vn ev s))"
  shows "is_query_safe t \<or> has_sql_shape t"
proof (cases "ending (sidebar vn ev s) = Finished")
  case False
  with assms(2) have "RunSql t \<in> set (calls (sidebar vn ev s))"
    by (simp add: run_script_def Let_def)
  then show ?thesis by (simp add: sidebar_calls)
next
  case True
  let ?s1 = "st (sidebar vn ev s)"
  from True assms(2) consider "RunSql t \<in> set (calls (sidebar vn ev s))"
    | "RunSql t \<in> set (calls (flow vn ev ?s1))"
    by (auto simp: run_script_def Let_def)
  then show ?thesis
  proof cases
    case 1
    then show ?thesis by (simp add: sidebar_calls)
  next
    case 2
    then have "stage ?s1 = ShowQuery" "t = sql ?s1" using flow_calls by blast+
    moreover have "shape_inv ?s1" using assms(1) by (rule shape_inv_sidebar)
    ultimately show ?thesis by (simp add: shape_inv_def)
  qed
qed

text \<open>
  C2, as amended. \<open>DBConnector.execute_query\<close> checks the denylist itself before it
  executes: on a text with a keyword of the denylist it raises and sends nothing to the
  cursor, whatever the caller checked; a safe text it sends once. The controller does not
  execute through it: it passes text to \<open>vn.run_sql\<close>, on the manual path only text that
  passed \<open>is_query_safe\<close>, in the stage \<open>show_query\<close> the current SQL. In every
  reachable state, text passed to \<open>vn.run_sql\<close> has passed \<open>is_query_safe\<close> or the shape
  check.
\<close>

theorem executor_gate:
  "(\<not> is_query_safe query \<longrightarrow>
      execute_query cursor_execute query =
        (Inl (Exception ''Query rejected: Write operations are not allowed.''), []))
   \<and> (is_query_safe query \<longrightarrow> snd (execute_query cursor_execute query) = [query])
   \<and> calls (sidebar vn (RunManualSQL manual_sql) s) =
        (if is_query_safe manual_sql then [RunSql manual_sql] else [])
   \<and> (stage s = ShowQuery \<longrightarrow> calls (run_script vn NoEvent s) = [RunSql (sql s)])
   \<and> (reachable s r \<and> RunSql t \<in> set (calls (run_script vn ev s)) \<longrightarrow>
        is_query_safe t \<or> query_shaped t)"
proof -
  have 1: "\<not> is_query_safe query \<longrightarrow>
      execute_query cursor_execute query =
        (Inl (Exception ''Query rejected: Write operations are not allowed.''), [])"
    by (simp add: execute_query_def)
  have 2: "is_query_safe query \<longrightarrow> snd (execute_query cursor_execute query) = [query]"
    by (simp add: execute_query_def split: sum.splits option.splits)
  have 3: "calls (sidebar vn (RunManualSQL manual_sql) s) =
        (if is_query_safe manual_sql then [RunSql manual_sql] else [])"
    by (simp add: sidebar_def run_manual_sql_calls)
  have 4: "stage s = ShowQuery \<longrightarrow> calls (run_script vn NoEvent s) = [RunSql (sql s)]"
    by (simp add: run_script_flow flow_def show_query_calls)
  have 5: "reachable s r \<and> RunSql t \<in> set (calls (run_script vn ev s)) \<longrightarrow>
        is_query_safe t \<or> query_shaped t"
    using reachable_shape_inv [of s r] run_script_calls [of s t vn ev]
    by (auto simp: has_sql_shape_iff)
  from 1 2 3 4 5 show ?thesis by blast
qed

theorem executor_gate_witness:
  "\<not> is_query_safe ''drop table orders''
   \<and> execute_query one_row_cursor ''drop table orders'' =
        (Inl (Exception ''Query rejected: Write operations are not allowed.''), [])
   \<and> is_query_safe ''select 1''
   \<and> snd (execute_query one_row_cursor ''select 1'') = [''select 1'']
   \<and> reachable (regenerated plain_env) True
   \<and> calls (run_script plain_env NoEvent (regenerated plain_env)) = [RunSql ''select * from orders'']
   \<and> (is_query_safe ''select * from orders'' \<or> query_shaped ''select * from orders'')"
proof -
  have a: "\<not> is_query_safe ''drop table orders''" by code_simp
  have b: "is_query_safe ''select 1''" by code_simp
  have c: "stage (regenerated plain_env) = ShowQuery" by code_simp
  have d: "sql (regenerated plain_env) = ''select * from orders''" by code_simp
  have 1: "execute_query one_row_cursor ''drop table orders'' =
        (Inl (Exception ''Query rejected: Write operations are not allowed.''), [])"
    using executor_gate [of "''drop table orders''" one_row_cursor] a by blast
  have 2: "snd (execute_query one_row_cursor ''select 1'') = [''select 1'']"
    using executor_gate [of "''select 1''" one_row_cursor] b by blast
  have 3: "calls (run_script plain_env NoEvent (regenerated plain_env)) = [RunSql ''select * from orders'']"
    using executor_gate [of _ _ plain_env _ "regenerated plain_env"] c d by simp
  then have "RunSql ''select * from orders'' \<in> set (calls (run_script plain_env NoEvent (regenerated plain_env)))"
    by simp
  with reachable_regenerated_plain
  have 4: "is_query_safe ''select * from orders'' \<or> query_shaped ''select * from orders''"
    using executor_gate [of _ _ plain_env _ "regenerated plain_env" True "''select * from orders''" NoEvent]
    by blast
  from a b 1 2 3 4 reachable_regenerated_plain show ?thesis by blast
qed

text \<open>
  In the stage \<open>show_query\<close> a generated text with a \<open>DROP\<close> statement is passed to the
  executor and the run ends without an error.
\<close>

theorem executor_gate_counterexample:
  "reachable (asked rogue_env) True
   \<and> stage (asked rogue_env) = ShowQuery
   \<and> \<not> is_query_safe ''SELECT 1; DROP TABLE orders''
   \<and> calls (run_script rogue_env NoEvent (asked rogue_env)) = [RunSql ''SELECT 1; DROP TABLE orders'']
   \<and> notices (run_script rogue_env NoEvent (asked rogue_env)) = []
   \<and> ending (run_script rogue_env NoEvent (asked rogue_env)) = Rerun"
proof -
  have 1: "stage (asked rogue_env) = ShowQuery" by code_simp
  have 2: "\<not> is_query_safe ''SELECT 1; DROP TABLE orders''" by code_simp
  have 3: "calls (run_script rogue_env NoEvent (asked rogue_env)) = [RunSql ''SELECT 1; DROP TABLE orders'']"
    by code_simp
  have 4: "notices (run_script rogue_env NoEvent (asked rogue_env)) = []" by code_simp
  have 5: "ending (run_script rogue_env NoEvent (asked rogue_env)) = Rerun" by code_simp
  from reachable_asked_rogue 1 2 3 4 5 show ?thesis by blast
qed

section \<open>Duplicate suppression\<close>




lemma duplicate_free_update [simp]:
  "duplicate_free (s\<lparr>user_question := q\<rparr>) = duplicate_free s"
  "duplicate_free (s\<lparr>sql := t\<rparr>) = duplicate_free s"
  "duplicate_free (s\<lparr>stage := g\<rparr>) = duplicate_free s"
  "duplicate_free (s\<lparr>query_result := r\<rparr>) = duplicate_free s"
  "duplicate_free (s\<lparr>user_feedback := f\<rparr>) = duplicate_free s"
  "duplicate_free (s\<lparr>session_id := i\<rparr>) = duplicate_free s"
  "duplicate_free (s\<lparr>feedback_file := d\<rparr>) = duplicate_free s"
  by (simp_all add: duplicate_free_def)

lemma duplicate_free_reset [simp]:
  "duplicate_free (reset_to_ask_question s) = duplicate_free s"
  by (simp add: reset_to_ask_question_def)


















end
